theory Spec2Isabelle
  imports Main
begin

section \<open>Python values used by the workbench\<close>

text \<open>
  The workbench is Python. Its integers are unbounded (\<open>int\<close>). A Python string is
  a sequence of code points; it is modelled as \<open>string\<close>, the list of the bytes of
  its UTF-8 encoding (a surrogate code point, which UTF-8 proper refuses, by the three
  bytes that the same scheme gives it). A character of the Python string is a lead byte
  with the continuation bytes that follow it: \<open>chars\<close> splits a string into its
  characters, and the length of a string, its slices by position and its white space
  are taken on characters. A sequence index or slice bound may be negative, in which
  case it counts from the end of the sequence.
\<close>

definition slice_index :: "nat \<Rightarrow> int \<Rightarrow> nat" where
  \<comment> \<open>how Python clamps one bound of \<open>xs[a:b]\<close> for a sequence of length \<open>n\<close>\<close>
  "slice_index n i =
     (if i < 0 then (if int n + i < 0 then 0 else nat (int n + i))
      else (if int n < i then n else nat i))"

definition py_slice :: "'a list \<Rightarrow> int \<Rightarrow> int \<Rightarrow> 'a list" where
  \<comment> \<open>\<open>xs[a:b]\<close>\<close>
  "py_slice xs a b =
     drop (slice_index (length xs) a) (take (slice_index (length xs) b) xs)"

definition py_slice_to :: "'a list \<Rightarrow> int \<Rightarrow> 'a list" where
  \<comment> \<open>\<open>xs[:b]\<close>\<close>
  "py_slice_to xs b = take (slice_index (length xs) b) xs"

definition py_slice_from :: "'a list \<Rightarrow> int \<Rightarrow> 'a list" where
  \<comment> \<open>\<open>xs[a:]\<close>\<close>
  "py_slice_from xs a = drop (slice_index (length xs) a) xs"

definition py_range :: "int \<Rightarrow> int \<Rightarrow> int list" where
  \<comment> \<open>\<open>range(a, b)\<close>: empty when \<open>b \<le> a\<close>\<close>
  "py_range a b = [a..b - 1]"

fun rfind_from :: "char \<Rightarrow> string \<Rightarrow> int \<Rightarrow> int \<Rightarrow> int" where
  \<comment> \<open>scans left to right, remembering the last position that held the character\<close>
  "rfind_from c [] i found = found"
| "rfind_from c (x # xs) i found = rfind_from c xs (i + 1) (if x = c then i else found)"

definition rfind :: "char \<Rightarrow> string \<Rightarrow> int" where
  \<comment> \<open>\<open>s.rfind(c)\<close>: the highest index of \<open>c\<close>, or \<open>-1\<close>\<close>
  "rfind c s = rfind_from c s 0 (- 1)"

fun join :: "string \<Rightarrow> string list \<Rightarrow> string" where
  \<comment> \<open>\<open>sep.join(xs)\<close>\<close>
  "join sep [] = []"
| "join sep [x] = x"
| "join sep (x # y # ys) = x @ sep @ join sep (y # ys)"

fun split_on :: "char \<Rightarrow> string \<Rightarrow> string list" where
  \<comment> \<open>\<open>s.split(c)\<close> for a one-character separator: always at least one piece\<close>
  "split_on c [] = [[]]"
| "split_on c (x # xs) =
     (if x = c then [] # split_on c xs
      else (case split_on c xs of
              [] \<Rightarrow> [[x]]
            | p # ps \<Rightarrow> (x # p) # ps))"

definition is_continuation :: "char \<Rightarrow> bool" where
  \<comment> \<open>a byte \<open>10xxxxxx\<close>, which continues a character\<close>
  "is_continuation c = (128 \<le> (of_char c :: nat) \<and> (of_char c :: nat) < 192)"

lemma length_dropWhile_less: "length (dropWhile P xs) < Suc (length xs)"
  by (simp add: length_dropWhile_le less_Suc_eq_le)

function chars :: "string \<Rightarrow> string list" where
  \<comment> \<open>the characters of a string, each with all its bytes\<close>
  "chars [] = []"
| "chars (c # cs) = (c # takeWhile is_continuation cs) # chars (dropWhile is_continuation cs)"
  by pat_completeness auto
termination
  by (relation "measure length") (auto simp: length_dropWhile_less)

definition py_len :: "string \<Rightarrow> int" where
  \<comment> \<open>\<open>len(s)\<close>: the number of characters\<close>
  "py_len s = int (length (chars s))"

definition str_slice_to :: "string \<Rightarrow> int \<Rightarrow> string" where
  \<comment> \<open>\<open>s[:b]\<close> on a string: the bound counts characters\<close>
  "str_slice_to s b = concat (py_slice_to (chars s) b)"

definition whitespace :: "string list" where
  \<comment> \<open>the characters for which \<open>str.isspace\<close> holds: U+0009 to U+000D, U+001C to
     U+0020, U+0085, U+00A0, U+1680, U+2000 to U+200A, U+2028, U+2029, U+202F, U+205F
     and U+3000\<close>
  "whitespace =
     [[CHR 0x09], [CHR 0x0A], [CHR 0x0B], [CHR 0x0C], [CHR 0x0D],
      [CHR 0x1C], [CHR 0x1D], [CHR 0x1E], [CHR 0x1F], [CHR 0x20],
      [CHR 0xC2, CHR 0x85], [CHR 0xC2, CHR 0xA0], [CHR 0xE1, CHR 0x9A, CHR 0x80],
      [CHR 0xE2, CHR 0x80, CHR 0x80], [CHR 0xE2, CHR 0x80, CHR 0x81],
      [CHR 0xE2, CHR 0x80, CHR 0x82], [CHR 0xE2, CHR 0x80, CHR 0x83],
      [CHR 0xE2, CHR 0x80, CHR 0x84], [CHR 0xE2, CHR 0x80, CHR 0x85],
      [CHR 0xE2, CHR 0x80, CHR 0x86], [CHR 0xE2, CHR 0x80, CHR 0x87],
      [CHR 0xE2, CHR 0x80, CHR 0x88], [CHR 0xE2, CHR 0x80, CHR 0x89],
      [CHR 0xE2, CHR 0x80, CHR 0x8A], [CHR 0xE2, CHR 0x80, CHR 0xA8],
      [CHR 0xE2, CHR 0x80, CHR 0xA9], [CHR 0xE2, CHR 0x80, CHR 0xAF],
      [CHR 0xE2, CHR 0x81, CHR 0x9F], [CHR 0xE3, CHR 0x80, CHR 0x80]]"

definition isspace :: "string \<Rightarrow> bool" where
  \<comment> \<open>\<open>ch.isspace()\<close> for one character\<close>
  "isspace ch = (ch \<in> set whitespace)"

definition strip :: "string \<Rightarrow> string" where
  \<comment> \<open>\<open>s.strip()\<close>: the white space characters at both ends are removed\<close>
  "strip s = concat (rev (dropWhile isspace (rev (dropWhile isspace (chars s)))))"

definition startswith :: "string \<Rightarrow> string \<Rightarrow> bool" where
  \<comment> \<open>\<open>s.startswith(p)\<close>\<close>
  "startswith s p = (take (length p) s = p)"

definition truthy :: "string option \<Rightarrow> bool" where
  \<comment> \<open>the truth value of an optional string: \<open>None\<close> and \<open>''\<close> are false\<close>
  "truthy v = (case v of None \<Rightarrow> False | Some s \<Rightarrow> s \<noteq> [])"


section \<open>Export helpers (src/utils.py)\<close>

subsection \<open>\<open>os.path.basename\<close> and \<open>os.path.splitext\<close> (POSIX)\<close>

definition basename :: "string \<Rightarrow> string" where
  \<comment> \<open>\<open>i = p.rfind('/') + 1; return p[i:]\<close>\<close>
  "basename p = py_slice_from p (rfind (CHR ''/'') p + 1)"

function splitext_loop :: "string \<Rightarrow> int \<Rightarrow> int \<Rightarrow> (string \<times> string) option" where
  \<comment> \<open>the loop that skips the leading dots of the last path component\<close>
  "splitext_loop p filenameIndex dotIndex =
     (if filenameIndex < dotIndex then
        (if py_slice p filenameIndex (filenameIndex + 1) \<noteq> ''.''
         then Some (py_slice_to p dotIndex, py_slice_from p dotIndex)
         else splitext_loop p (filenameIndex + 1) dotIndex)
      else None)"
  by pat_completeness auto
termination
  by (relation "measure (\<lambda>(p, f, d). nat (d - f))") auto

definition splitext :: "string \<Rightarrow> string \<times> string" where
  "splitext p =
     (let sepIndex = rfind (CHR ''/'') p;
          dotIndex = rfind (CHR ''.'') p
      in if dotIndex > sepIndex then
           (case splitext_loop p (sepIndex + 1) dotIndex of
              Some r \<Rightarrow> r
            | None \<Rightarrow> (p, []))
         else (p, []))"

subsection \<open>\<open>get_safe_filename\<close>\<close>

definition invalid_chars :: "char list" where
  \<comment> \<open>the character class \<open>[\\/*?:"<>|]\<close>\<close>
  "invalid_chars =
     [CHR 0x5C, CHR ''/'', CHR ''*'', CHR ''?'', CHR '':'', CHR 0x22, CHR ''<'', CHR ''>'', CHR ''|'']"

definition remove_invalid :: "string \<Rightarrow> string" where
  \<comment> \<open>\<open>re.sub(r'[\\/*?:"<>|]', "", s)\<close>: every character of the class is deleted\<close>
  "remove_invalid s = filter (\<lambda>c. c \<notin> set invalid_chars) s"

definition replace_space :: "string \<Rightarrow> string" where
  \<comment> \<open>\<open>s.replace(" ", "_")\<close>\<close>
  "replace_space s = map (\<lambda>c. if c = CHR '' '' then CHR ''_'' else c) s"

definition get_safe_filename :: "string \<Rightarrow> string" where
  "get_safe_filename base_name =
     (let base_name' = basename base_name;
          safe_name = replace_space (remove_invalid base_name');
          max_len = 100
      in if py_len safe_name > max_len then
           (case splitext safe_name of
              (name, ext) \<Rightarrow> str_slice_to name (max_len - py_len ext - 1) @ ext)
         else safe_name)"


section \<open>Extraction results (src/parsers.py)\<close>

text \<open>
  Every back end returns a dictionary. The record below has one field per key that any
  back end sets; \<open>None\<close> in a content field means that the key is absent, which is what
  \<open>dict.get(key, default)\<close> tells apart from a key that is present with an empty value.
  The key \<open>error\<close> is only ever read with \<open>.get('error')\<close>, so its field is the value
  that call returns: \<open>None\<close> when the key is absent or holds \<open>None\<close>.
\<close>

record table_record =
  page :: int
  table_index :: int
  data :: "string option list list"

record extraction_result =
  text_field :: "string option"
  markdown :: "string option"
  latex :: "string option"
  structured_text :: "string option"
  tables :: "table_record list option"
  metadata :: "(string \<times> string option) list option"
  latex_blocks :: "string list option"
  latex_equations_count :: "int option"
  error :: "string option"

definition empty_result :: extraction_result where
  \<comment> \<open>the dictionary with no key\<close>
  "empty_result =
     \<lparr>text_field = None, markdown = None, latex = None, structured_text = None,
      tables = None, metadata = None, latex_blocks = None, latex_equations_count = None,
      error = None\<rparr>"

subsection \<open>\<open>parse_nougat\<close>: the scan for fenced math blocks\<close>

definition is_delimiter :: "string \<Rightarrow> bool" where
  \<comment> \<open>\<open>line.strip().startswith('$$')\<close>\<close>
  "is_delimiter line = startswith (strip line) ''$$''"

fun scan_latex :: "bool \<Rightarrow> string list \<Rightarrow> string list \<Rightarrow> string list \<Rightarrow> string list" where
  \<comment> \<open>the loop over the lines, with its three variables \<open>in_latex\<close>, \<open>current_block\<close>
     and \<open>latex_blocks\<close> (here \<open>blocks\<close>)\<close>
  "scan_latex in_latex current_block blocks [] = blocks"
| "scan_latex in_latex current_block blocks (line # lines) =
     (if is_delimiter line then
        (if in_latex
         then scan_latex False [] (blocks @ [join [CHR 0x0A] current_block]) lines
         else scan_latex True current_block blocks lines)
      else if in_latex then scan_latex in_latex (current_block @ [line]) blocks lines
      else scan_latex in_latex current_block blocks lines)"

definition extract_latex_blocks :: "string \<Rightarrow> string list" where
  "extract_latex_blocks md = scan_latex False [] [] (split_on (CHR 0x0A) md)"


definition nougat_latex_result :: "string \<Rightarrow> extraction_result \<Rightarrow> extraction_result" where
  \<comment> \<open>the branch taken when the generated \<open>.mmd\<close> file exists: its content is stored
     under \<open>markdown\<close>, then the blocks and their count\<close>
  "nougat_latex_result md result =
     (let result1 = result\<lparr>markdown := Some md\<rparr>;
          blocks = extract_latex_blocks (the (markdown result1))
      in result1\<lparr>latex_blocks := Some blocks,
                  latex_equations_count := Some (int (length blocks))\<rparr>)"

subsection \<open>Documents as the libraries present them\<close>

text \<open>
  The back ends read a document through external libraries. What a library returns is
  data of the model; an exception it raises is a message (\<open>Inl\<close>). Progress callbacks
  and warnings written to the user interface do not change any result and are left out.
\<close>

datatype ocr_outcome =
    Recognised string
  | TesseractNotFoundError
  | OcrException string
  | RenderException string

record fitz_page =
  get_text :: "string + string"
  image_to_string :: "int \<Rightarrow> string \<Rightarrow> ocr_outcome"

record fitz_doc =
  doc_metadata :: "(string \<times> string option) list"
  doc_pages :: "fitz_page list"

definition page_count :: "fitz_doc \<Rightarrow> int" where
  "page_count doc = int (length (doc_pages doc))"

definition load_page :: "fitz_doc \<Rightarrow> int \<Rightarrow> string + fitz_page" where
  "load_page doc n =
     (if 0 \<le> n \<and> n < page_count doc then Inr (doc_pages doc ! nat n)
      else Inl ''page not in document'')"

record plumber_page =
  page_number :: int
  extract_text :: "string + string option"
  extract_tables :: "string + string option list list list"

definition digit_char :: "nat \<Rightarrow> char" where
  "digit_char d = ''0123456789'' ! d"

function str_nat :: "nat \<Rightarrow> string" where
  \<comment> \<open>the decimal digits of a natural number\<close>
  "str_nat n =
     (if n < 10 then [digit_char n]
      else str_nat (n div 10) @ [digit_char (n mod 10)])"
  by pat_completeness auto
termination
  by (relation "measure id") auto

declare str_nat.simps [simp del]

definition str_int :: "int \<Rightarrow> string" where
  \<comment> \<open>\<open>str(i)\<close>\<close>
  "str_int i = (if i < 0 then CHR ''-'' # str_nat (nat (- i)) else str_nat (nat i))"

definition repr_range :: "int \<times> int \<Rightarrow> string" where
  \<comment> \<open>how an f-string prints the tuple \<open>page_range\<close>\<close>
  "repr_range r = ''('' @ str_int (fst r) @ '', '' @ str_int (snd r) @ '')''"

definition invalid_range_message :: "int \<times> int \<Rightarrow> string" where
  "invalid_range_message r =
     ''Invalid page range: '' @ repr_range r @ ''. Start page must be less than end page.''"

fun contains :: "string \<Rightarrow> string \<Rightarrow> bool" where
  \<comment> \<open>\<open>sub in s\<close>\<close>
  "contains sub [] = (sub = [])"
| "contains sub (x # xs) = (startswith (x # xs) sub \<or> contains sub xs)"

subsection \<open>\<open>parse_pymupdf\<close>\<close>

definition pymupdf_pages_to_process :: "int \<Rightarrow> (int \<times> int) option \<Rightarrow> int list" where
  "pymupdf_pages_to_process n range_opt =
     (case range_opt of
        None \<Rightarrow> py_range 0 n
      | Some (s, e) \<Rightarrow>
          (let start = max 0 (s - 1);
               end' = min n e
           in py_range start end'))"

fun pymupdf_loop :: "fitz_doc \<Rightarrow> int list \<Rightarrow> string list \<Rightarrow> string + string list" where
  \<comment> \<open>the loop that appends each page's text to \<open>full_text\<close>; the first exception ends it\<close>
  "pymupdf_loop doc [] full_text = Inr full_text"
| "pymupdf_loop doc (page_num # rest) full_text =
     (case load_page doc page_num of
        Inl e \<Rightarrow> Inl e
      | Inr pg \<Rightarrow>
          (case get_text pg of
             Inl e \<Rightarrow> Inl e
           | Inr t \<Rightarrow> pymupdf_loop doc rest (full_text @ [t])))"

definition parse_pymupdf ::
  "(string \<Rightarrow> string + fitz_doc) \<Rightarrow> string \<Rightarrow> (int \<times> int) option \<Rightarrow> extraction_result" where
  "parse_pymupdf fitz_open path range_opt =
     (let result = empty_result\<lparr>text_field := Some [], metadata := Some [], error := None\<rparr>
      in case fitz_open path of
           Inl e \<Rightarrow> result\<lparr>error := Some (''PyMuPDF Error: '' @ e)\<rparr>
         | Inr doc \<Rightarrow>
             (let result1 = result\<lparr>metadata := Some (doc_metadata doc)\<rparr>;
                  pages_to_process = pymupdf_pages_to_process (page_count doc) range_opt
              in case pymupdf_loop doc pages_to_process [] of
                   Inl e \<Rightarrow> result1\<lparr>error := Some (''PyMuPDF Error: '' @ e)\<rparr>
                 | Inr full_text \<Rightarrow> result1\<lparr>text_field := Some (join [CHR 0x0A] full_text)\<rparr>))"

subsection \<open>\<open>parse_pdfplumber\<close>\<close>

definition pdfplumber_pages_to_process ::
  "'p list \<Rightarrow> (int \<times> int) option \<Rightarrow> string + 'p list" where
  \<comment> \<open>\<open>Inl\<close> is the message of the early return for a range that is empty after
     clamping\<close>
  "pdfplumber_pages_to_process pages range_opt =
     (case range_opt of
        None \<Rightarrow> Inr pages
      | Some (s, e) \<Rightarrow>
          (let start = max 0 (s - 1);
               end' = min (int (length pages)) e
           in if start \<ge> end' then Inl (invalid_range_message (s, e))
              else Inr (py_slice pages start end')))"

definition page_tables :: "int \<Rightarrow> string option list list list \<Rightarrow> table_record list" where
  \<comment> \<open>the comprehension that tags each table of a page with the page number and its
     index on the page\<close>
  "page_tables page_num_actual tbls =
     map (\<lambda>(t_idx, tbl). \<lparr>page = page_num_actual, table_index = int t_idx, data = tbl\<rparr>)
         (enumerate 0 tbls)"

fun pdfplumber_loop ::
  "plumber_page list \<Rightarrow> string list \<Rightarrow> table_record list \<Rightarrow> string + (string list \<times> table_record list)" where
  "pdfplumber_loop [] full_text all_tables = Inr (full_text, all_tables)"
| "pdfplumber_loop (pg # rest) full_text all_tables =
     (case extract_text pg of
        Inl e \<Rightarrow> Inl e
      | Inr t \<Rightarrow>
          (let full_text1 = (if truthy t then full_text @ [the t] else full_text)
           in case extract_tables pg of
                Inl e \<Rightarrow> Inl e
              | Inr tbls \<Rightarrow>
                  pdfplumber_loop rest full_text1
                    (if tbls \<noteq> [] then all_tables @ page_tables (page_number pg) tbls
                     else all_tables)))"

definition pdfplumber_error :: "string \<Rightarrow> string" where
  \<comment> \<open>the message chosen by the exception handler\<close>
  "pdfplumber_error e =
     (if contains ''pdfminer.six'' e \<and> contains ''20250327'' e
      then ''pdfplumber Error: Potential incompatibility with installed pdfminer.six version. Details: '' @ e
      else ''pdfplumber Error: '' @ e)"

definition parse_pdfplumber ::
  "(string \<Rightarrow> string + plumber_page list) \<Rightarrow> string \<Rightarrow> (int \<times> int) option \<Rightarrow> extraction_result" where
  "parse_pdfplumber pdfplumber_open path range_opt =
     (let result = empty_result\<lparr>text_field := Some [], tables := Some [], error := None\<rparr>
      in case pdfplumber_open path of
           Inl e \<Rightarrow> result\<lparr>error := Some (pdfplumber_error e)\<rparr>
         | Inr pages \<Rightarrow>
             (case pdfplumber_pages_to_process pages range_opt of
                Inl msg \<Rightarrow> result\<lparr>error := Some msg\<rparr>
              | Inr pages_to_process \<Rightarrow>
                  (case pdfplumber_loop pages_to_process [] [] of
                     Inl e \<Rightarrow> result\<lparr>error := Some (pdfplumber_error e)\<rparr>
                   | Inr (full_text, all_tables) \<Rightarrow>
                       result\<lparr>text_field := Some (join ([CHR 0x0A] @ ''---'' @ [CHR 0x0A]) full_text),
                              tables := Some all_tables\<rparr>)))"


subsection \<open>\<open>parse_ocr\<close>\<close>

definition ocr_pages_to_process :: "int \<Rightarrow> (int \<times> int) option \<Rightarrow> string + int list" where
  "ocr_pages_to_process n range_opt =
     (case range_opt of
        None \<Rightarrow> Inr (py_range 0 n)
      | Some (s, e) \<Rightarrow>
          (let start = max 0 (s - 1);
               end' = min n e
           in if start \<ge> end' then Inl (invalid_range_message (s, e))
              else Inr (py_range start end')))"

datatype ocr_stop = EngineMissing | Raised string

fun ocr_loop ::
  "fitz_doc \<Rightarrow> string \<Rightarrow> int \<Rightarrow> int list \<Rightarrow> string list \<Rightarrow> ocr_stop + string list" where
  \<comment> \<open>one page after the other: a missing engine ends the call, any other recognition
     failure leaves a bracketed marker for that page and goes on, an exception raised
     outside the recognition step ends the loop\<close>
  "ocr_loop doc lng resolution [] full_text = Inr full_text"
| "ocr_loop doc lng resolution (page_num # rest) full_text =
     (case load_page doc page_num of
        Inl e \<Rightarrow> Inl (Raised e)
      | Inr pg \<Rightarrow>
          (case image_to_string pg resolution lng of
             RenderException e \<Rightarrow> Inl (Raised e)
           | Recognised page_text \<Rightarrow> ocr_loop doc lng resolution rest (full_text @ [page_text])
           | TesseractNotFoundError \<Rightarrow> Inl EngineMissing
           | OcrException e \<Rightarrow>
               ocr_loop doc lng resolution rest
                 (full_text @ [''[OCR Error on page '' @ str_int (page_num + 1) @ '']''])))"

definition is_open_missing :: string where
  \<comment> \<open>the message of the \<open>AttributeError\<close> for \<open>doc.is_open\<close>\<close>
  "is_open_missing =
     [CHR 0x27] @ ''Document'' @ [CHR 0x27] @ '' object has no attribute ''
     @ [CHR 0x27] @ ''is_open'' @ [CHR 0x27]"

definition parse_ocr ::
  "(string \<Rightarrow> string + fitz_doc) \<Rightarrow> string \<Rightarrow> string \<Rightarrow> (int \<times> int) option \<Rightarrow> int \<Rightarrow>
   string + extraction_result" where
  \<comment> \<open>\<open>Inl\<close>: an exception that leaves the function. When an exception reaches the
     outer handler after the document was opened, the handler stores the error and then
     reads \<open>doc.is_open\<close>; a document of the library has no such attribute (it has
     \<open>is_closed\<close>), so the handler itself raises \<open>AttributeError\<close>. When the
     document could not be opened, \<open>doc\<close> is not bound, the attribute is not read and
     the result with the error is returned.\<close>
  "parse_ocr fitz_open path lng range_opt resolution =
     (let result = empty_result\<lparr>text_field := Some [], error := None\<rparr>
      in case fitz_open path of
           Inl e \<Rightarrow> Inr (result\<lparr>error := Some (''OCR Workflow Error: '' @ e)\<rparr>)
         | Inr doc \<Rightarrow>
             (case ocr_pages_to_process (page_count doc) range_opt of
                Inl msg \<Rightarrow> Inr (result\<lparr>error := Some msg\<rparr>)
              | Inr pages_to_process \<Rightarrow>
                  (case ocr_loop doc lng resolution pages_to_process [] of
                     Inl EngineMissing \<Rightarrow>
                       Inr (result\<lparr>error := Some ''Tesseract Error: Executable not found. Please ensure Tesseract is installed and in your PATH or configure the path in parsers.py.''\<rparr>)
                   | Inl (Raised e) \<Rightarrow> Inl is_open_missing
                   | Inr full_text \<Rightarrow>
                       Inr (result\<lparr>text_field :=
                         Some (join ([CHR 0x0A, CHR 0x0A] @ ''--- Page Break ---'' @ [CHR 0x0A, CHR 0x0A]) full_text)\<rparr>))))"

subsection \<open>\<open>parse_nougat\<close>\<close>

text \<open>
  The external tool runs as a subprocess that is polled until it exits or the timeout
  passes. How the run ends is a value of the model.
\<close>

datatype nougat_run =
    MakedirsFailed string
  | CommandNotFound
  | TimedOut
  | ExitedNonZero int
  | Finished "string option"
  | UnexpectedError string

definition nougat_total_pages :: "int \<Rightarrow> (int \<times> int) option \<Rightarrow> int" where
  \<comment> \<open>the page total shown in the progress messages\<close>
  "nougat_total_pages n range_opt =
     (case range_opt of
        None \<Rightarrow> n
      | Some (s, e) \<Rightarrow> min e n - max 1 s + 1)"

definition nougat_command :: "string \<Rightarrow> string \<Rightarrow> string list" where
  \<comment> \<open>the command line: the document's path and the output directory, no page option\<close>
  "nougat_command path output_dir = [''nougat'', path, ''-o'', output_dir, ''--no-skipping'']"

definition parse_nougat ::
  "(string \<Rightarrow> string + fitz_doc) \<Rightarrow> (string list \<Rightarrow> int \<Rightarrow> nougat_run) \<Rightarrow> string \<Rightarrow>
   string \<Rightarrow> (int \<times> int) option \<Rightarrow> int \<Rightarrow> string + extraction_result" where
  \<comment> \<open>\<open>Inl\<close>: an exception that leaves the function (the output directory cannot be
     created, which happens before the \<open>try\<close>). A generated file that is missing makes the
     code slice the process's error stream, which raises, so the handler for unexpected
     errors writes the message.\<close>
  "parse_nougat fitz_open run_nougat output_dir path range_opt tmo =
     (let result = empty_result\<lparr>markdown := Some [], latex := Some [], error := None\<rparr>;
          run = run_nougat (nougat_command path output_dir) tmo
      in case run of
           MakedirsFailed e \<Rightarrow> Inl e
         | _ \<Rightarrow>
           (case fitz_open path of
              Inl e \<Rightarrow> Inr (result\<lparr>error := Some (''Nougat Error: An unexpected error occurred: '' @ e)\<rparr>)
            | Inr doc \<Rightarrow>
                (case run of
                   MakedirsFailed e \<Rightarrow> Inl e
                 | CommandNotFound \<Rightarrow>
                     Inr (result\<lparr>error := Some (''Nougat Error: '' @ [CHR 0x27] @ ''nougat'' @ [CHR 0x27] @ '' command not found. Is Nougat installed and in your PATH?'')\<rparr>)
                 | TimedOut \<Rightarrow>
                     Inr (result\<lparr>error := Some ''Nougat Error: Processing timed out after 10 minutes''\<rparr>)
                 | ExitedNonZero rc \<Rightarrow>
                     Inr (result\<lparr>error := Some (''Nougat Error: Process failed with exit code '' @ str_int rc @ ''.'' @ [CHR 0x0A] @ ''Stdout: None'' @ [CHR 0x0A] @ ''Stderr: None'')\<rparr>)
                 | UnexpectedError e \<Rightarrow>
                     Inr (result\<lparr>error := Some (''Nougat Error: An unexpected error occurred: '' @ e)\<rparr>)
                 | Finished None \<Rightarrow>
                     Inr (result\<lparr>error := Some (''Nougat Error: An unexpected error occurred: '' @ [CHR 0x27] @ ''_io.TextIOWrapper'' @ [CHR 0x27] @ '' object is not subscriptable'')\<rparr>)
                 | Finished (Some md) \<Rightarrow> Inr (nougat_latex_result md result))))"

subsection \<open>\<open>parse_grobid\<close>\<close>

datatype post_outcome =
    ConnectionError
  | Timeout
  | PostException string
  | Response int string

definition parse_grobid ::
  "(string \<Rightarrow> string + 'p list) \<Rightarrow> (string \<Rightarrow> 'p list \<Rightarrow> post_outcome) \<Rightarrow> string \<Rightarrow> string \<Rightarrow> extraction_result" where
  "parse_grobid open_rb requests_post path grobid_url =
     (let result = empty_result\<lparr>metadata := Some [], structured_text := Some [], error := None\<rparr>;
          grobid_api_url = grobid_url @ ''/api/processFulltextDocument''
      in case open_rb path of
           Inl e \<Rightarrow> result\<lparr>error := Some (''GROBID Error: An unexpected error occurred: '' @ e)\<rparr>
         | Inr f \<Rightarrow>
             (case requests_post grobid_api_url f of
                Response status body \<Rightarrow>
                  (if status = 200 then result\<lparr>structured_text := Some body\<rparr>
                   else result\<lparr>error := Some (''GROBID Error: API request failed with status '' @ str_int status @ ''. Response: '' @ str_slice_to body 500 @ ''...'')\<rparr>)
              | ConnectionError \<Rightarrow>
                  result\<lparr>error := Some (''GROBID Error: Could not connect to GROBID instance at '' @ grobid_api_url @ ''. Is it running?'')\<rparr>
              | Timeout \<Rightarrow>
                  result\<lparr>error := Some ''GROBID Error: Request timed out after 120 seconds.''\<rparr>
              | PostException e \<Rightarrow>
                  result\<lparr>error := Some (''GROBID Error: An unexpected error occurred: '' @ e)\<rparr>))"


subsection \<open>Results without content\<close>

definition no_content :: "extraction_result \<Rightarrow> bool" where
  \<comment> \<open>the specification's "no content fields populated": each of text, markdown,
     structured text, tables and metadata is absent or empty\<close>
  "no_content r =
     (\<not> truthy (text_field r) \<and> \<not> truthy (markdown r) \<and> \<not> truthy (structured_text r)
      \<and> (case tables r of None \<Rightarrow> True | Some ts \<Rightarrow> ts = [])
      \<and> (case metadata r of None \<Rightarrow> True | Some m \<Rightarrow> m = []))"


section \<open>Metrics and chunking preview (src/evaluation.py)\<close>

subsection \<open>The equation estimate of \<open>calculate_metrics\<close>\<close>

text \<open>
  \<open>re.findall\<close> scans from left to right and returns the matches that do not overlap.
  The two patterns are written out as the backtracking matcher runs them. Both start
  with a dollar sign that no backslash precedes; the lazy \<open>.*?\<close> then stops at the
  first position where the closing part matches. In the inline pattern the dot does
  not match a line feed; in the display pattern (\<open>re.DOTALL\<close>) it does.
  The first argument of each function is the character before the current position.
\<close>

fun inline_close :: "char \<Rightarrow> string \<Rightarrow> string option" where
  \<comment> \<open>after the opening \<open>$\<close> of \<open>(?<!\\)\$.*?(?<!\\)\$\<close>: the text left after the
     nearest closing \<open>$\<close>, if there is one on this line\<close>
  "inline_close prev [] = None"
| "inline_close prev (c # cs) =
     (if c = CHR ''$'' \<and> prev \<noteq> CHR 0x5C then Some cs
      else if c = CHR 0x0A then None
      else inline_close c cs)"

lemma inline_close_shorter: "inline_close prev s = Some r \<Longrightarrow> length r < length s"
  by (induction prev s rule: inline_close.induct) (auto split: if_splits)

function inline_eq_count_from :: "char option \<Rightarrow> string \<Rightarrow> nat" where
  "inline_eq_count_from prev [] = 0"
| "inline_eq_count_from prev (c # cs) =
     (if c = CHR ''$'' \<and> prev \<noteq> Some (CHR 0x5C) then
        (case inline_close c cs of
           Some r \<Rightarrow> 1 + inline_eq_count_from (Some (CHR ''$'')) r
         | None \<Rightarrow> inline_eq_count_from (Some c) cs)
      else inline_eq_count_from (Some c) cs)"
  by pat_completeness auto
termination
  by (relation "measure (\<lambda>(prev, s). length s)") (auto dest: inline_close_shorter)

fun display_close :: "char \<Rightarrow> string \<Rightarrow> string option" where
  \<comment> \<open>after the opening \<open>$$\<close> of \<open>(?<!\\)\$\$.*?(?<!\\)\$\$\<close>: the text left after the
     nearest closing \<open>$$\<close>\<close>
  "display_close prev (c1 # c2 # cs) =
     (if c1 = CHR ''$'' \<and> c2 = CHR ''$'' \<and> prev \<noteq> CHR 0x5C then Some cs
      else display_close c1 (c2 # cs))"
| "display_close prev cs = None"

lemma display_close_shorter: "display_close prev s = Some r \<Longrightarrow> length r < length s"
  by (induction prev s rule: display_close.induct) (auto split: if_splits)

function display_eq_count_from :: "char option \<Rightarrow> string \<Rightarrow> nat" where
  "display_eq_count_from prev (c1 # c2 # cs) =
     (if c1 = CHR ''$'' \<and> c2 = CHR ''$'' \<and> prev \<noteq> Some (CHR 0x5C) then
        (case display_close c2 cs of
           Some r \<Rightarrow> 1 + display_eq_count_from (Some (CHR ''$'')) r
         | None \<Rightarrow> display_eq_count_from (Some c1) (c2 # cs))
      else display_eq_count_from (Some c1) (c2 # cs))"
| "display_eq_count_from prev [c] = 0"
| "display_eq_count_from prev [] = 0"
  by pat_completeness auto
termination
  by (relation "measure (\<lambda>(prev, s). length s)") (auto dest: display_close_shorter)

definition inline_eq_count :: "string \<Rightarrow> nat" where
  "inline_eq_count text_content = inline_eq_count_from None text_content"

definition display_eq_count :: "string \<Rightarrow> nat" where
  "display_eq_count text_content = display_eq_count_from None text_content"

definition estimated_equation_count :: "string \<Rightarrow> nat" where
  \<comment> \<open>\<open>metrics['estimated_equation_count'] = inline_eq_count + display_eq_count\<close>\<close>
  "estimated_equation_count text_content =
     inline_eq_count text_content + display_eq_count text_content"

subsection \<open>\<open>get_chunking_preview\<close>\<close>

text \<open>
  The text splitter is an external library; it is a parameter of the model. It is
  given the chunk size, the overlap and the text, and returns the chunks or raises.
\<close>

record chunk_preview =
  chunks :: "string list"
  total_chunks :: int
  preview_error :: "string option"

definition get_chunking_preview ::
  "(int \<Rightarrow> int \<Rightarrow> string \<Rightarrow> string + string list) \<Rightarrow>
   string \<Rightarrow> string \<Rightarrow> int \<Rightarrow> int \<Rightarrow> int \<Rightarrow> chunk_preview" where
  "get_chunking_preview split_text text_content strategy chunk_size chunk_overlap max_preview_chunks =
     (let preview = \<lparr>chunks = [], total_chunks = 0, preview_error = None\<rparr>
      in if chunk_size \<le> 0 then preview\<lparr>preview_error := Some ''Chunk size must be positive''\<rparr>
         else if chunk_overlap < 0 then preview\<lparr>preview_error := Some ''Chunk overlap cannot be negative''\<rparr>
         else if chunk_overlap \<ge> chunk_size
           then preview\<lparr>preview_error := Some ''Chunk overlap must be smaller than chunk size''\<rparr>
         else if strategy = ''recursive'' then
           (case split_text chunk_size chunk_overlap text_content of
              Inl e \<Rightarrow> preview\<lparr>preview_error := Some (''Chunking Error: '' @ e)\<rparr>
            | Inr cs \<Rightarrow>
                preview\<lparr>chunks := py_slice_to cs max_preview_chunks,
                        total_chunks := int (length cs)\<rparr>)
         else preview\<lparr>preview_error := Some (''Unknown or unimplemented chunking strategy: '' @ strategy)\<rparr>)"


section \<open>The application (app.py)\<close>

subsection \<open>Choosing one text of a result\<close>

definition dict_get :: "'a option \<Rightarrow> 'a \<Rightarrow> 'a" where
  \<comment> \<open>\<open>d.get(key, default)\<close>, the field being \<open>None\<close> when the key is absent\<close>
  "dict_get entry dflt = (case entry of Some v \<Rightarrow> v | None \<Rightarrow> dflt)"

definition metrics_primary_text :: "extraction_result \<Rightarrow> string" where
  \<comment> \<open>\<open>display_parser_output\<close>: the text the metrics are computed on\<close>
  "metrics_primary_text d =
     dict_get (markdown d) (dict_get (text_field d) (dict_get (structured_text d) []))"

definition diff_text :: "extraction_result \<Rightarrow> string" where
  \<comment> \<open>the difference view: "prefer markdown, then text"\<close>
  "diff_text d = dict_get (markdown d) (dict_get (text_field d) [])"

definition chunk_source_text :: "extraction_result \<Rightarrow> string" where
  \<comment> \<open>the chunking preview\<close>
  "chunk_source_text d =
     dict_get (markdown d) (dict_get (text_field d) (dict_get (structured_text d) []))"

definition primary_text_for_docx :: "extraction_result \<Rightarrow> string" where
  \<comment> \<open>the DOCX export: "using primary text/markdown"\<close>
  "primary_text_for_docx d = dict_get (markdown d) (dict_get (text_field d) [])"

definition precedence_text :: "extraction_result \<Rightarrow> string" where
  \<comment> \<open>the specification's rule, in its words: markdown before text before
     structured text, the empty string when the result has none of them\<close>
  "precedence_text d =
     (case markdown d of
        Some m \<Rightarrow> m
      | None \<Rightarrow>
          (case text_field d of
             Some t \<Rightarrow> t
           | None \<Rightarrow> (case structured_text d of Some x \<Rightarrow> x | None \<Rightarrow> [])))"

subsection \<open>The run over the selected back ends\<close>

text \<open>
  A back end is called with keyword arguments. The record holds the keys the
  application may pass; \<open>None\<close> is an absent key. The page range itself may be \<open>None\<close>
  (all pages), so its field is an option of an option.
\<close>

record kwargs =
  kw_pdf_path :: string
  kw_page_range :: "(int \<times> int) option option"
  kw_lang :: "string option"
  kw_dpi :: "int option"
  kw_grobid_url :: "string option"
  kw_timeout :: "int option"
  kw_progress_callback :: bool

type_synonym parser_func = "kwargs \<Rightarrow> string + extraction_result"

record controls =
  selected_pdf_path :: string
  page_range :: "(int \<times> int) option"
  ocr_lang :: string
  ocr_dpi :: int
  grobid_url :: string
  nougat_timeout :: int

definition common_params :: "controls \<Rightarrow> kwargs" where
  "common_params st =
     \<lparr>kw_pdf_path = selected_pdf_path st, kw_page_range = Some (page_range st),
      kw_lang = None, kw_dpi = None, kw_grobid_url = None, kw_timeout = None,
      kw_progress_callback = False\<rparr>"

definition build_params :: "controls \<Rightarrow> string \<Rightarrow> kwargs" where
  "build_params st parser_name =
     (let params = common_params st
      in if parser_name = ''OCR (Tesseract)''
           then params\<lparr>kw_lang := Some (ocr_lang st), kw_dpi := Some (ocr_dpi st)\<rparr>
         else if parser_name = ''GROBID''
           then (params\<lparr>kw_grobid_url := Some (grobid_url st)\<rparr>)\<lparr>kw_page_range := None\<rparr>
         else if parser_name = ''Nougat''
           then params\<lparr>kw_timeout := Some (nougat_timeout st), kw_progress_callback := True\<rparr>
         else params)"

definition ocr_params :: "controls \<Rightarrow> kwargs" where
  \<comment> \<open>the arguments of the fallback call\<close>
  "ocr_params st = (common_params st)\<lparr>kw_lang := Some (ocr_lang st), kw_dpi := Some (ocr_dpi st)\<rparr>"

type_synonym result_set = "(string \<times> extraction_result) list"

definition dict_set :: "string \<Rightarrow> 'v \<Rightarrow> (string \<times> 'v) list \<Rightarrow> (string \<times> 'v) list" where
  \<comment> \<open>\<open>d[k] = v\<close> on an insertion-ordered dictionary: a known key keeps its place\<close>
  "dict_set k v d =
     (if k \<in> set (map fst d) then map (\<lambda>kv. if fst kv = k then (k, v) else kv) d
      else d @ [(k, v)])"

definition failed_result :: "string \<Rightarrow> string \<Rightarrow> extraction_result" where
  \<comment> \<open>what the handler stores when the call itself raised\<close>
  "failed_result parser_name e =
     empty_result\<lparr>error := Some (''Failed to execute parser '' @ [CHR 0x27] @ parser_name
                                  @ [CHR 0x27] @ '': '' @ e)\<rparr>"

definition run_parser ::
  "(string \<times> parser_func) list \<Rightarrow> parser_func \<Rightarrow> controls \<Rightarrow> string \<Rightarrow> result_set \<Rightarrow>
   string + result_set" where
  \<comment> \<open>one round of the loop. \<open>Inl\<close>: the name is not a key of \<open>PARSER_OPTIONS\<close>, which
     raises outside the \<open>try\<close>. An exception inside the \<open>try\<close>, from the back end or from
     the fallback call, replaces the entry of the back end by a failure entry.\<close>
  "run_parser registry ocr st parser_name current_results =
     (case map_of registry parser_name of
        None \<Rightarrow> Inl (''KeyError: '' @ parser_name)
      | Some parser_function \<Rightarrow>
          (let params = build_params st parser_name
           in case parser_function params of
                Inl e \<Rightarrow> Inr (dict_set parser_name (failed_result parser_name e) current_results)
              | Inr r \<Rightarrow>
                  (let results1 = dict_set parser_name r current_results
                   in if parser_name = ''Nougat'' \<and> truthy (error r)
                         \<and> ''OCR (Tesseract)'' \<in> set (map fst registry)
                      then (case ocr (ocr_params st) of
                              Inl e \<Rightarrow> Inr (dict_set parser_name (failed_result parser_name e) results1)
                            | Inr fallback \<Rightarrow> Inr (dict_set ''OCR Fallback'' fallback results1))
                      else Inr results1)))"

fun run_parsers ::
  "(string \<times> parser_func) list \<Rightarrow> parser_func \<Rightarrow> controls \<Rightarrow> string list \<Rightarrow> result_set \<Rightarrow>
   string + result_set" where
  "run_parsers registry ocr st [] current_results = Inr current_results"
| "run_parsers registry ocr st (parser_name # rest) current_results =
     (case run_parser registry ocr st parser_name current_results of
        Inl e \<Rightarrow> Inl e
      | Inr results1 \<Rightarrow> run_parsers registry ocr st rest results1)"

definition parse_button ::
  "(string \<times> parser_func) list \<Rightarrow> parser_func \<Rightarrow> controls \<Rightarrow> string list \<Rightarrow> string + result_set" where
  \<comment> \<open>the handler of the button: the results of a run start empty\<close>
  "parse_button registry ocr st selected_parser_names =
     run_parsers registry ocr st selected_parser_names []"


subsection \<open>The registered back ends\<close>

text \<open>
  Everything outside the program that a back end touches: the libraries that open a
  document, the external tool and the external service.
\<close>

record 'f world =
  fitz_open :: "string \<Rightarrow> string + fitz_doc"
  pdfplumber_open :: "string \<Rightarrow> string + plumber_page list"
  run_nougat :: "string list \<Rightarrow> int \<Rightarrow> nougat_run"
  output_dir :: string
  open_rb :: "string \<Rightarrow> string + 'f list"
  requests_post :: "string \<Rightarrow> 'f list \<Rightarrow> post_outcome"

text \<open>
  A call \<open>f(**params)\<close> binds the keys to the parameters of \<open>f\<close>: a parameter without a
  key takes its default, a key that is no parameter raises \<open>TypeError\<close>.
\<close>

definition unexpected_keyword :: string where
  "unexpected_keyword = ''TypeError: got an unexpected keyword argument''"

definition call_parse_pymupdf :: "'f world \<Rightarrow> parser_func" where
  "call_parse_pymupdf w kw =
     (if kw_lang kw \<noteq> None \<or> kw_dpi kw \<noteq> None \<or> kw_grobid_url kw \<noteq> None
         \<or> kw_timeout kw \<noteq> None \<or> kw_progress_callback kw
      then Inl unexpected_keyword
      else Inr (parse_pymupdf (fitz_open w) (kw_pdf_path kw) (dict_get (kw_page_range kw) None)))"

definition call_parse_pdfplumber :: "'f world \<Rightarrow> parser_func" where
  "call_parse_pdfplumber w kw =
     (if kw_lang kw \<noteq> None \<or> kw_dpi kw \<noteq> None \<or> kw_grobid_url kw \<noteq> None
         \<or> kw_timeout kw \<noteq> None \<or> kw_progress_callback kw
      then Inl unexpected_keyword
      else Inr (parse_pdfplumber (pdfplumber_open w) (kw_pdf_path kw)
                  (dict_get (kw_page_range kw) None)))"

definition call_parse_ocr :: "'f world \<Rightarrow> parser_func" where
  "call_parse_ocr w kw =
     (if kw_grobid_url kw \<noteq> None \<or> kw_timeout kw \<noteq> None \<or> kw_progress_callback kw
      then Inl unexpected_keyword
      else parse_ocr (fitz_open w) (kw_pdf_path kw) (dict_get (kw_lang kw) ''eng'')
             (dict_get (kw_page_range kw) None) (dict_get (kw_dpi kw) 300))"

definition call_parse_nougat :: "'f world \<Rightarrow> parser_func" where
  "call_parse_nougat w kw =
     (if kw_lang kw \<noteq> None \<or> kw_dpi kw \<noteq> None \<or> kw_grobid_url kw \<noteq> None
      then Inl unexpected_keyword
      else parse_nougat (fitz_open w) (run_nougat w) (output_dir w) (kw_pdf_path kw)
             (dict_get (kw_page_range kw) None) (dict_get (kw_timeout kw) 1800))"

definition call_parse_grobid :: "'f world \<Rightarrow> parser_func" where
  "call_parse_grobid w kw =
     (if kw_page_range kw \<noteq> None \<or> kw_lang kw \<noteq> None \<or> kw_dpi kw \<noteq> None
         \<or> kw_timeout kw \<noteq> None \<or> kw_progress_callback kw
      then Inl unexpected_keyword
      else Inr (parse_grobid (open_rb w) (requests_post w) (kw_pdf_path kw)
                  (dict_get (kw_grobid_url kw) ''http://localhost:8070'')))"

definition PARSER_OPTIONS :: "'f world \<Rightarrow> (string \<times> parser_func) list" where
  "PARSER_OPTIONS w =
     [(''PyMuPDF'', call_parse_pymupdf w),
      (''pdfplumber'', call_parse_pdfplumber w),
      (''OCR (Tesseract)'', call_parse_ocr w),
      (''Nougat'', call_parse_nougat w),
      (''GROBID'', call_parse_grobid w)]"

definition workbench_run :: "'f world \<Rightarrow> controls \<Rightarrow> string list \<Rightarrow> string + result_set" where
  \<comment> \<open>the button handler with the application's own registry and its \<open>parse_ocr\<close>\<close>
  "workbench_run w st selected_parser_names =
     parse_button (PARSER_OPTIONS w) (call_parse_ocr w) st selected_parser_names"


section \<open>JSON export (src/utils.py)\<close>

text \<open>
  The values that \<open>export_json\<close> can be given. A finite floating point number is
  identified by the text that \<open>repr\<close> gives for it (\<open>Float ''1.5''\<close>); the three
  special values are constructors of their own. Dictionary keys are strings, integers,
  floating point numbers, booleans or \<open>None\<close>; \<open>KOther\<close> and \<open>POther\<close> stand for
  a key and a value of any other type (a tuple as a key, a set, bytes, an object), for
  which the encoder raises \<open>TypeError\<close>. A string stands for the bytes of its UTF-8
  encoding, so that \<open>.encode('utf-8')\<close> of a string without surrogates and the decoding
  in \<open>json.loads\<close> leave it as it is.
\<close>

datatype pyfloat = Float string | Inf | NegInf | NaN

datatype pykey = KStr string | KInt int | KFloat pyfloat | KBool bool | KNone | KOther

datatype pyval =
    PNone
  | PBool bool
  | PInt int
  | PFloat pyfloat
  | PStr string
  | PList "pyval list"
  | PTuple "pyval list"
  | PDict "(pykey \<times> pyval) list"
  | POther

text \<open>
  What the interpreter decides: the longest integer, in digits, that it converts from
  and to text (\<open>sys.int_max_str_digits\<close>, 4300 unless it was changed, 0 for no limit);
  how many levels of lists and dictionaries the encoder and the decoder can descend
  before the recursion limit stops them with \<open>RecursionError\<close> (this depends on the
  limit and on the stack in use at the call; it is counted here in levels of nesting);
  and \<open>float\<close>, which reads a number literal.
\<close>

record python =
  int_max_str_digits :: nat
  encoder_depth :: nat
  decoder_depth :: nat
  float_of_str :: "string \<Rightarrow> pyfloat"

subsection \<open>\<open>json.dumps(data, indent=4, ensure_ascii=False)\<close>\<close>

text \<open>
  The encoder returns \<open>None\<close> where the library raises.
\<close>

definition hex_char :: "nat \<Rightarrow> char" where
  "hex_char d = ''0123456789abcdef'' ! d"

definition escape_char :: "char \<Rightarrow> string" where
  \<comment> \<open>the replacement table of the encoder: the quote, the backslash and the control
     characters are escaped, every other character is kept\<close>
  "escape_char c =
     (if c = CHR 0x22 then [CHR 0x5C, CHR 0x22]
      else if c = CHR 0x5C then [CHR 0x5C, CHR 0x5C]
      else if c = CHR 0x0A then [CHR 0x5C, CHR ''n'']
      else if c = CHR 0x0D then [CHR 0x5C, CHR ''r'']
      else if c = CHR 0x09 then [CHR 0x5C, CHR ''t'']
      else if c = CHR 0x08 then [CHR 0x5C, CHR ''b'']
      else if c = CHR 0x0C then [CHR 0x5C, CHR ''f'']
      else if (of_char c :: nat) < 32
        then [CHR 0x5C, CHR ''u'', CHR ''0'', CHR ''0'',
              hex_char (of_char c div 16), hex_char (of_char c mod 16)]
      else [c])"

definition encode_basestring :: "string \<Rightarrow> string" where
  "encode_basestring s = [CHR 0x22] @ concat (map escape_char s) @ [CHR 0x22]"

definition int_repr :: "python \<Rightarrow> int \<Rightarrow> string option" where
  \<comment> \<open>\<open>int.__repr__\<close>: \<open>ValueError\<close> for more digits than the limit\<close>
  "int_repr py i =
     (if 0 < int_max_str_digits py \<and> int_max_str_digits py < length (str_nat (nat \<bar>i\<bar>))
      then None else Some (str_int i))"

definition floatstr :: "pyfloat \<Rightarrow> string" where
  \<comment> \<open>\<open>float.__repr__\<close> for a finite number, the JavaScript names for the others
     (\<open>allow_nan\<close> is left at \<open>True\<close>)\<close>
  "floatstr f =
     (case f of
        Float s \<Rightarrow> s
      | Inf \<Rightarrow> ''Infinity''
      | NegInf \<Rightarrow> ''-Infinity''
      | NaN \<Rightarrow> ''NaN'')"

definition key_str :: "python \<Rightarrow> pykey \<Rightarrow> string option" where
  \<comment> \<open>a key that is not a string is turned into one\<close>
  "key_str py k =
     (case k of
        KStr s \<Rightarrow> Some s
      | KFloat f \<Rightarrow> Some (floatstr f)
      | KBool b \<Rightarrow> Some (if b then ''true'' else ''false'')
      | KNone \<Rightarrow> Some ''null''
      | KInt i \<Rightarrow> int_repr py i
      | KOther \<Rightarrow> None)"

definition newline_indent :: "nat \<Rightarrow> string" where
  "newline_indent level = CHR 0x0A # replicate (4 * level) (CHR '' '')"

definition bracket ::
  "python \<Rightarrow> nat \<Rightarrow> char \<Rightarrow> char \<Rightarrow> string option list \<Rightarrow> string option" where
  \<comment> \<open>a list or a dictionary from the texts of its items: an empty one is written at
     once; the encoder descends into any other one, which raises when no level is left,
     and writes each item on a line of its own\<close>
  "bracket py level opening closing items =
     (if items = [] then Some [opening, closing]
      else if encoder_depth py \<le> level then None
      else (case those items of
              None \<Rightarrow> None
            | Some texts \<Rightarrow>
                Some ([opening] @ newline_indent (level + 1)
                      @ join ('','' @ newline_indent (level + 1)) texts
                      @ newline_indent level @ [closing])))"

definition member :: "string option \<Rightarrow> string option \<Rightarrow> string option" where
  \<comment> \<open>one member of a dictionary from the texts of its key and of its value\<close>
  "member k v =
     (case k of
        None \<Rightarrow> None
      | Some key \<Rightarrow>
          (case v of
             None \<Rightarrow> None
           | Some value_text \<Rightarrow> Some (encode_basestring key @ '': '' @ value_text)))"

fun iterencode :: "python \<Rightarrow> nat \<Rightarrow> pyval \<Rightarrow> string option" where
  \<comment> \<open>the encoder at an indentation level; a tuple is written as a list is\<close>
  "iterencode py level PNone = Some ''null''"
| "iterencode py level (PBool b) = Some (if b then ''true'' else ''false'')"
| "iterencode py level (PInt i) = int_repr py i"
| "iterencode py level (PFloat f) = Some (floatstr f)"
| "iterencode py level (PStr s) = Some (encode_basestring s)"
| "iterencode py level (PList xs) =
     bracket py level (CHR ''['') (CHR '']'') (map (iterencode py (level + 1)) xs)"
| "iterencode py level (PTuple xs) =
     bracket py level (CHR ''['') (CHR '']'') (map (iterencode py (level + 1)) xs)"
| "iterencode py level (PDict kvs) =
     bracket py level (CHR ''{'') (CHR ''}'')
       (map (\<lambda>kv. member (key_str py (fst kv)) (iterencode py (level + 1) (snd kv))) kvs)"
| "iterencode py level POther = None"

definition dumps :: "python \<Rightarrow> pyval \<Rightarrow> string option" where
  "dumps py obj = iterencode py 0 obj"

fun has_surrogate :: "string \<Rightarrow> bool" where
  \<comment> \<open>a surrogate code point is the lead byte \<open>0xED\<close> with a next byte from \<open>0xA0\<close>\<close>
  "has_surrogate (a # b # cs) =
     ((a = CHR 0xED \<and> 160 \<le> (of_char b :: nat) \<and> (of_char b :: nat) < 192)
      \<or> has_surrogate (b # cs))"
| "has_surrogate cs = False"

definition encode_utf8 :: "string \<Rightarrow> string option" where
  \<comment> \<open>\<open>s.encode('utf-8')\<close>: \<open>UnicodeEncodeError\<close> for a surrogate\<close>
  "encode_utf8 s = (if has_surrogate s then None else Some s)"

definition export_json :: "python \<Rightarrow> pyval \<Rightarrow> string option" where
  \<comment> \<open>\<open>None\<close> when the data is neither a dictionary nor a list, and when the encoding
     raises\<close>
  "export_json py d =
     (case d of
        PDict kvs \<Rightarrow> (case dumps py d of None \<Rightarrow> None | Some json_string \<Rightarrow> encode_utf8 json_string)
      | PList xs \<Rightarrow> (case dumps py d of None \<Rightarrow> None | Some json_string \<Rightarrow> encode_utf8 json_string)
      | _ \<Rightarrow> None)"

subsection \<open>\<open>json.loads\<close>\<close>

text \<open>
  The decoder, for the reading back of what \<open>export_json\<close> wrote: white space,
  strings with their escapes, numbers, the literals, arrays and objects. It returns
  \<open>None\<close> where the library raises. The recursion of the model is bounded by a counter
  that starts above the length of the text.
\<close>

definition is_ws :: "char \<Rightarrow> bool" where
  "is_ws c = (c = CHR '' '' \<or> c = CHR 0x09 \<or> c = CHR 0x0A \<or> c = CHR 0x0D)"

definition skip_ws :: "string \<Rightarrow> string" where
  "skip_ws s = dropWhile is_ws s"

definition hex_val :: "char \<Rightarrow> nat option" where
  "hex_val c =
     (let n = (of_char c :: nat)
      in if 48 \<le> n \<and> n \<le> 57 then Some (n - 48)
         else if 97 \<le> n \<and> n \<le> 102 then Some (n - 87)
         else if 65 \<le> n \<and> n \<le> 70 then Some (n - 55)
         else None)"

definition hex4 :: "char \<Rightarrow> char \<Rightarrow> char \<Rightarrow> char \<Rightarrow> nat option" where
  "hex4 a b c d =
     (case (hex_val a, hex_val b, hex_val c, hex_val d) of
        (Some w, Some x, Some y, Some z) \<Rightarrow> Some (((w * 16 + x) * 16 + y) * 16 + z)
      | _ \<Rightarrow> None)"

definition utf8 :: "nat \<Rightarrow> string" where
  \<comment> \<open>the bytes of a code point, a surrogate included\<close>
  "utf8 n =
     (if n < 128 then [char_of n]
      else if n < 2048 then [char_of (192 + n div 64), char_of (128 + n mod 64)]
      else if n < 65536 then
        [char_of (224 + n div 4096), char_of (128 + (n div 64) mod 64), char_of (128 + n mod 64)]
      else [char_of (240 + n div 262144), char_of (128 + (n div 4096) mod 64),
            char_of (128 + (n div 64) mod 64), char_of (128 + n mod 64)])"

definition unescape :: "char \<Rightarrow> char option" where
  "unescape e =
     (if e = CHR 0x22 then Some (CHR 0x22)
      else if e = CHR 0x5C then Some (CHR 0x5C)
      else if e = CHR ''/'' then Some (CHR ''/'')
      else if e = CHR ''b'' then Some (CHR 0x08)
      else if e = CHR ''f'' then Some (CHR 0x0C)
      else if e = CHR ''n'' then Some (CHR 0x0A)
      else if e = CHR ''r'' then Some (CHR 0x0D)
      else if e = CHR ''t'' then Some (CHR 0x09)
      else None)"

definition low_surrogate :: "string \<Rightarrow> (nat \<times> string) option option" where
  \<comment> \<open>what follows the escape of a high surrogate: \<open>None\<close> when no escape follows (the
     high surrogate stays alone), \<open>Some None\<close> when an escape follows that is malformed,
     \<open>Some (Some (n, rest))\<close> when an escape of the code point \<open>n\<close> follows\<close>
  "low_surrogate s =
     (case s of
        b # u # g1 # g2 # g3 # g4 # c # rest \<Rightarrow>
          (if b = CHR 0x5C \<and> u = CHR ''u''
           then Some (case hex4 g1 g2 g3 g4 of None \<Rightarrow> None | Some n \<Rightarrow> Some (n, c # rest))
           else None)
      | _ \<Rightarrow> None)"

lemma low_surrogate_shorter:
  "low_surrogate s = Some (Some (n, r)) \<Longrightarrow> length r < length s"
  by (auto simp: low_surrogate_def split: list.splits if_splits option.splits)

function scanstring :: "string \<Rightarrow> string \<Rightarrow> (string \<times> string) option" where
  "scanstring acc [] = None"
| "scanstring acc (c # cs) =
     (if c = CHR 0x22 then Some (acc, cs)
      else if c = CHR 0x5C then
        (case cs of
           [] \<Rightarrow> None
         | e # cs1 \<Rightarrow>
             (if e = CHR ''u'' then
                (case cs1 of
                   h1 # h2 # h3 # h4 # cs2 \<Rightarrow>
                     (case hex4 h1 h2 h3 h4 of
                        None \<Rightarrow> None
                      | Some n \<Rightarrow>
                          (if 55296 \<le> n \<and> n < 56320 then
                             (case low_surrogate cs2 of
                                None \<Rightarrow> scanstring (acc @ utf8 n) cs2
                              | Some None \<Rightarrow> None
                              | Some (Some (n2, cs3)) \<Rightarrow>
                                  (if 56320 \<le> n2 \<and> n2 < 57344
                                   then scanstring
                                          (acc @ utf8 (65536 + (n - 55296) * 1024 + (n2 - 56320))) cs3
                                   else scanstring (acc @ utf8 n) cs2))
                           else scanstring (acc @ utf8 n) cs2))
                 | _ \<Rightarrow> None)
              else (case unescape e of
                      None \<Rightarrow> None
                    | Some ch \<Rightarrow> scanstring (acc @ [ch]) cs1)))
      else if (of_char c :: nat) < 32 then None
      else scanstring (acc @ [c]) cs)"
  by pat_completeness auto
termination
  by (relation "measure (\<lambda>(acc, s). length s)") (auto dest: low_surrogate_shorter)

definition is_digit :: "char \<Rightarrow> bool" where
  "is_digit c = (48 \<le> (of_char c :: nat) \<and> (of_char c :: nat) \<le> 57)"

text \<open>
  The pattern of a number, \<open>(-?(?:0|[1-9]\d*))(\.\d+)?([eE][-+]?\d+)?\<close>, in its three
  groups. Each function returns the text of its group and the text that is left; the
  second and the third group may be empty.
\<close>

definition match_integer :: "string \<Rightarrow> (string \<times> string) option" where
  "match_integer s =
     (let sign = (if startswith s ''-'' then ''-'' else []);
          body = drop (length sign) s
      in case body of
           [] \<Rightarrow> None
         | c # cs \<Rightarrow>
             (if c = CHR ''0'' then Some (sign @ [c], cs)
              else if is_digit c
                then Some (sign @ c # takeWhile is_digit cs, dropWhile is_digit cs)
              else None))"

definition match_frac :: "string \<Rightarrow> string \<times> string" where
  "match_frac s =
     (case s of
        c # d # cs \<Rightarrow>
          (if c = CHR ''.'' \<and> is_digit d
           then (c # d # takeWhile is_digit cs, dropWhile is_digit cs)
           else ([], s))
      | _ \<Rightarrow> ([], s))"

definition match_exp :: "string \<Rightarrow> string \<times> string" where
  "match_exp s =
     (case s of
        c # cs \<Rightarrow>
          (if c = CHR ''e'' \<or> c = CHR ''E'' then
             (let sign = (if startswith cs ''+'' then ''+'' else if startswith cs ''-'' then ''-'' else []);
                  ds = drop (length sign) cs
              in if takeWhile is_digit ds = [] then ([], s)
                 else (c # sign @ takeWhile is_digit ds, dropWhile is_digit ds))
           else ([], s))
      | [] \<Rightarrow> ([], s))"

definition digits_value :: "string \<Rightarrow> nat" where
  "digits_value ds = foldl (\<lambda>a c. 10 * a + (of_char c - 48)) 0 ds"

definition int_of_str :: "python \<Rightarrow> string \<Rightarrow> int option" where
  \<comment> \<open>\<open>int(text)\<close> for an optional minus sign and digits: \<open>ValueError\<close> for more
     digits than the limit\<close>
  "int_of_str py t =
     (let negative = startswith t ''-'';
          ds = (if negative then drop 1 t else t)
      in if 0 < int_max_str_digits py \<and> int_max_str_digits py < length ds then None
         else Some (if negative then - int (digits_value ds) else int (digits_value ds)))"

definition match_number :: "python \<Rightarrow> string \<Rightarrow> (pyval \<times> string) option" where
  \<comment> \<open>a number with a fraction or an exponent is read by \<open>float\<close>, any other by
     \<open>int\<close>\<close>
  "match_number py s =
     (case match_integer s of
        None \<Rightarrow> None
      | Some (integer, r) \<Rightarrow>
          (case match_frac r of
             (frac, r1) \<Rightarrow>
               (case match_exp r1 of
                  (exp, r2) \<Rightarrow>
                    (if frac \<noteq> [] \<or> exp \<noteq> []
                     then Some (PFloat (float_of_str py (integer @ frac @ exp)), r2)
                     else (case int_of_str py integer of
                             None \<Rightarrow> None
                           | Some i \<Rightarrow> Some (PInt i, r2))))))"

definition dict_of_pairs :: "(string \<times> pyval) list \<Rightarrow> pyval" where
  \<comment> \<open>the dictionary built from the pairs of an object: a repeated key keeps its first
     place and takes the last value\<close>
  "dict_of_pairs ps =
     PDict (map (\<lambda>kv. (KStr (fst kv), snd kv)) (foldl (\<lambda>d kv. dict_set (fst kv) (snd kv) d) [] ps))"

fun scan_once :: "python \<Rightarrow> nat \<Rightarrow> nat \<Rightarrow> string \<Rightarrow> (pyval \<times> string) option"
  and scan_array :: "python \<Rightarrow> nat \<Rightarrow> nat \<Rightarrow> string \<Rightarrow> pyval list \<Rightarrow> (pyval \<times> string) option"
  and scan_object ::
    "python \<Rightarrow> nat \<Rightarrow> nat \<Rightarrow> string \<Rightarrow> (string \<times> pyval) list \<Rightarrow> (pyval \<times> string) option" where
  \<comment> \<open>the second number is the level of nesting: entering an array or an object raises
     when the decoder has no level left\<close>
  "scan_once py 0 level s = None"
| "scan_once py (Suc n) level s =
     (case s of
        [] \<Rightarrow> None
      | c # cs \<Rightarrow>
          (if c = CHR 0x22 then
             (case scanstring [] cs of None \<Rightarrow> None | Some (str, r) \<Rightarrow> Some (PStr str, r))
           else if c = CHR ''{'' then
             (if decoder_depth py \<le> level then None
              else (case skip_ws cs of
                      [] \<Rightarrow> None
                    | c1 # r \<Rightarrow> if c1 = CHR ''}'' then Some (PDict [], r)
                               else scan_object py n (level + 1) (c1 # r) []))
           else if c = CHR ''['' then
             (if decoder_depth py \<le> level then None
              else (case skip_ws cs of
                      [] \<Rightarrow> None
                    | c1 # r \<Rightarrow> if c1 = CHR '']'' then Some (PList [], r)
                               else scan_array py n (level + 1) (c1 # r) []))
           else if startswith s ''null'' then Some (PNone, drop 4 s)
           else if startswith s ''true'' then Some (PBool True, drop 4 s)
           else if startswith s ''false'' then Some (PBool False, drop 5 s)
           else (case match_number py s of
                   Some res \<Rightarrow> Some res
                 | None \<Rightarrow>
                     if startswith s ''NaN'' then Some (PFloat NaN, drop 3 s)
                     else if startswith s ''Infinity'' then Some (PFloat Inf, drop 8 s)
                     else if startswith s ''-Infinity'' then Some (PFloat NegInf, drop 9 s)
                     else None)))"
| "scan_array py 0 level s acc = None"
| "scan_array py (Suc n) level s acc =
     (case scan_once py n level s of
        None \<Rightarrow> None
      | Some (v, r) \<Rightarrow>
          (case skip_ws r of
             [] \<Rightarrow> None
           | c # r1 \<Rightarrow>
               if c = CHR '','' then scan_array py n level (skip_ws r1) (acc @ [v])
               else if c = CHR '']'' then Some (PList (acc @ [v]), r1)
               else None))"
| "scan_object py 0 level s acc = None"
| "scan_object py (Suc n) level s acc =
     (case s of
        [] \<Rightarrow> None
      | q # cs \<Rightarrow>
          (if q \<noteq> CHR 0x22 then None
           else (case scanstring [] cs of
                   None \<Rightarrow> None
                 | Some (k, r) \<Rightarrow>
                     (case skip_ws r of
                        [] \<Rightarrow> None
                      | c # r1 \<Rightarrow>
                          (if c \<noteq> CHR '':'' then None
                           else (case scan_once py n level (skip_ws r1) of
                                   None \<Rightarrow> None
                                 | Some (v, r2) \<Rightarrow>
                                     (case skip_ws r2 of
                                        [] \<Rightarrow> None
                                      | c2 # r3 \<Rightarrow>
                                          if c2 = CHR '','' then scan_object py n level (skip_ws r3) (acc @ [(k, v)])
                                          else if c2 = CHR ''}'' then Some (dict_of_pairs (acc @ [(k, v)]), r3)
                                          else None)))))))"

definition loads :: "python \<Rightarrow> string \<Rightarrow> pyval option" where
  "loads py s =
     (case scan_once py (Suc (length s)) 0 (skip_ws s) of
        None \<Rightarrow> None
      | Some (v, r) \<Rightarrow> if skip_ws r = [] then Some v else None)"

subsection \<open>Data that JSON holds as it is\<close>

fun json_native :: "pyval \<Rightarrow> bool" where
  \<comment> \<open>built from \<open>None\<close>, booleans, integers, floating point numbers other than NaN
     (which is equal to no value, itself included), strings, lists and dictionaries
     whose keys are strings\<close>
  "json_native PNone = True"
| "json_native (PBool b) = True"
| "json_native (PInt i) = True"
| "json_native (PFloat f) = (f \<noteq> NaN)"
| "json_native (PStr s) = True"
| "json_native (PList xs) = list_all json_native xs"
| "json_native (PTuple xs) = False"
| "json_native (PDict kvs) =
     (list_all (\<lambda>kv. (case fst kv of KStr k \<Rightarrow> True | _ \<Rightarrow> False) \<and> json_native (snd kv)) kvs
      \<and> distinct (map fst kvs))"
| "json_native POther = False"

definition is_float_repr :: "string \<Rightarrow> bool" where
  \<comment> \<open>the whole text is a number with a fraction or an exponent, as every \<open>repr\<close> of a
     finite floating point number is\<close>
  "is_float_repr s =
     (case match_integer s of
        None \<Rightarrow> False
      | Some (integer, r) \<Rightarrow>
          (case match_frac r of
             (frac, r1) \<Rightarrow>
               (case match_exp r1 of
                  (exp, r2) \<Rightarrow> (frac \<noteq> [] \<or> exp \<noteq> []) \<and> r2 = [])))"

fun repr_read_back :: "python \<Rightarrow> pyval \<Rightarrow> bool" where
  \<comment> \<open>for every finite floating point number \<open>x\<close> among the values,
     \<open>float(repr(x)) == x\<close>\<close>
  "repr_read_back py (PFloat f) =
     (case f of Float s \<Rightarrow> is_float_repr s \<and> float_of_str py s = Float s | _ \<Rightarrow> True)"
| "repr_read_back py (PList xs) = list_all (repr_read_back py) xs"
| "repr_read_back py (PTuple xs) = list_all (repr_read_back py) xs"
| "repr_read_back py (PDict kvs) = list_all (\<lambda>kv. repr_read_back py (snd kv)) kvs"
| "repr_read_back py v = True"

fun depth :: "pyval \<Rightarrow> nat" where
  \<comment> \<open>the levels of lists and dictionaries in a value\<close>
  "depth (PList xs) = Suc (foldr max (map depth xs) 0)"
| "depth (PTuple xs) = Suc (foldr max (map depth xs) 0)"
| "depth (PDict kvs) = Suc (foldr max (map (\<lambda>kv. depth (snd kv)) kvs) 0)"
| "depth v = 0"

fun cost :: "pyval \<Rightarrow> nat" where
  \<comment> \<open>a bound on the depth of the decoder's recursion on the text of a value\<close>
  "cost (PList xs) = 1 + sum_list (map (\<lambda>x. 1 + cost x) xs)"
| "cost (PTuple xs) = 1 + sum_list (map (\<lambda>x. 1 + cost x) xs)"
| "cost (PDict kvs) = 1 + sum_list (map (\<lambda>kv. 1 + cost (snd kv)) kvs)"
| "cost v = 1"

definition value_end :: "string \<Rightarrow> bool" where
  \<comment> \<open>what follows a value in the encoder's output\<close>
  "value_end r = (case r of [] \<Rightarrow> True | c # cs \<Rightarrow> c = CHR '','' \<or> c = CHR 0x0A)"

definition value_start :: "string \<Rightarrow> bool" where
  \<comment> \<open>the first character of a value or of a key\<close>
  "value_start s = (case s of [] \<Rightarrow> False | c # cs \<Rightarrow> \<not> is_ws c \<and> c \<noteq> CHR '']'' \<and> c \<noteq> CHR ''}'')"


section \<open>Properties of the export helpers\<close>

lemma set_py_slice_to: "set (py_slice_to xs b) \<subseteq> set xs"
  by (simp add: py_slice_to_def set_take_subset)

lemma set_py_slice_from: "set (py_slice_from xs a) \<subseteq> set xs"
  by (simp add: py_slice_from_def set_drop_subset)

lemma splitext_loop_set:
  "splitext_loop p f d = Some (name, ext) \<Longrightarrow> set name \<subseteq> set p \<and> set ext \<subseteq> set p"
proof (induction p f d rule: splitext_loop.induct)
  case (1 p f d)
  show ?case
  proof (cases "f < d")
    case False
    with "1.prems" show ?thesis by simp
  next
    case True
    show ?thesis
    proof (cases "py_slice p f (f + 1) \<noteq> ''.''")
      case True
      with \<open>f < d\<close> "1.prems" have "name = py_slice_to p d" "ext = py_slice_from p d"
        by simp_all
      then show ?thesis by (simp add: set_py_slice_to set_py_slice_from)
    next
      case False
      with \<open>f < d\<close> "1.prems" have "splitext_loop p (f + 1) d = Some (name, ext)"
        by simp
      with "1.IH" \<open>f < d\<close> False show ?thesis by simp
    qed
  qed
qed

lemma splitext_set:
  assumes "splitext p = (name, ext)"
  shows "set name \<subseteq> set p \<and> set ext \<subseteq> set p"
proof (cases "rfind (CHR ''.'') p > rfind (CHR ''/'') p")
  case False
  with assms show ?thesis by (simp add: splitext_def Let_def)
next
  case True
  show ?thesis
  proof (cases "splitext_loop p (rfind (CHR ''/'') p + 1) (rfind (CHR ''.'') p)")
    case None
    with True assms show ?thesis by (simp add: splitext_def Let_def)
  next
    case (Some r)
    with True assms have "splitext_loop p (rfind (CHR ''/'') p + 1) (rfind (CHR ''.'') p) = Some (name, ext)"
      by (simp add: splitext_def Let_def)
    then show ?thesis by (rule splitext_loop_set)
  qed
qed

lemma concat_chars: "concat (chars s) = s"
  by (induction s rule: chars.induct) simp_all

lemma set_str_slice_to: "set (str_slice_to s b) \<subseteq> set s"
proof -
  have "set (concat (py_slice_to (chars s) b)) \<subseteq> set (concat (chars s))"
    using set_py_slice_to [of "chars s" b] by auto
  then show ?thesis by (simp add: str_slice_to_def concat_chars)
qed

lemma safe_name_clean:
  "set (replace_space (remove_invalid s)) \<inter> set (CHR '' '' # invalid_chars) = {}"
  by (auto simp: replace_space_def remove_invalid_def invalid_chars_def)

text \<open>
  C9. For every input string, \<open>get_safe_filename\<close> returns a string that holds no
  space and none of the characters \<open>\ / * ? : " < > |\<close>; in particular no path
  separator survives, so the result is a single path component.
\<close>

theorem get_safe_filename_clean:
  "set (get_safe_filename s) \<inter> set (CHR '' '' # invalid_chars) = {}"
proof -
  define safe_name where "safe_name = replace_space (remove_invalid (basename s))"
  have clean: "set safe_name \<inter> set (CHR '' '' # invalid_chars) = {}"
    unfolding safe_name_def by (rule safe_name_clean)
  show ?thesis
  proof (cases "py_len safe_name > 100")
    case False
    then have "get_safe_filename s = safe_name"
      by (simp add: get_safe_filename_def safe_name_def Let_def)
    with clean show ?thesis by simp
  next
    case True
    obtain name ext where sp: "splitext safe_name = (name, ext)"
      by (cases "splitext safe_name")
    from True sp have res: "get_safe_filename s = str_slice_to name (100 - py_len ext - 1) @ ext"
      by (simp add: get_safe_filename_def safe_name_def Let_def)
    from splitext_set [OF sp] have "set name \<subseteq> set safe_name" "set ext \<subseteq> set safe_name"
      by simp_all
    moreover have "set (str_slice_to name (100 - py_len ext - 1)) \<subseteq> set name"
      by (rule set_str_slice_to)
    ultimately have "set (get_safe_filename s) \<subseteq> set safe_name"
      unfolding res by auto
    with clean show ?thesis by blast
  qed
qed

theorem get_safe_filename_clean_witness:
  "get_safe_filename ''my file /:*?<>|.pdf'' = ''.pdf''
   \<and> get_safe_filename ''PDF/my report: v2?.pdf'' = ''my_report_v2.pdf''
   \<and> set (get_safe_filename ''PDF/my report: v2?.pdf'') \<inter> set (CHR '' '' # invalid_chars) = {}"
  using get_safe_filename_clean [of "''PDF/my report: v2?.pdf''"]
  by (simp add: get_safe_filename_def basename_def rfind_def py_slice_from_def slice_index_def
        remove_invalid_def replace_space_def invalid_chars_def py_len_def is_continuation_def)

section \<open>Properties of the scan for fenced math blocks\<close>

lemma scan_latex_blocks_prefix:
  "scan_latex b cur acc ls = acc @ scan_latex b cur [] ls"
proof (induction ls arbitrary: b cur acc)
  case Nil
  show ?case by simp
next
  case (Cons x ls)
  show ?case
  proof (cases "is_delimiter x")
    case True
    show ?thesis
    proof (cases b)
      case True
      have "scan_latex b cur acc (x # ls) = scan_latex False [] (acc @ [join [CHR 0x0A] cur]) ls"
        using \<open>is_delimiter x\<close> True by simp
      also have "\<dots> = (acc @ [join [CHR 0x0A] cur]) @ scan_latex False [] [] ls"
        by (rule Cons.IH)
      also have "\<dots> = acc @ ([join [CHR 0x0A] cur] @ scan_latex False [] [] ls)"
        by simp
      also have "[join [CHR 0x0A] cur] @ scan_latex False [] [] ls
                   = scan_latex False [] [join [CHR 0x0A] cur] ls"
        by (rule Cons.IH [symmetric])
      also have "scan_latex False [] [join [CHR 0x0A] cur] ls = scan_latex b cur [] (x # ls)"
        using \<open>is_delimiter x\<close> True by simp
      finally show ?thesis .
    next
      case False
      with \<open>is_delimiter x\<close> Cons.IH [of True cur acc] show ?thesis by simp
    qed
  next
    case False
    with Cons.IH [of b "cur @ [x]" acc] Cons.IH [of b cur acc] show ?thesis
      by (cases b) simp_all
  qed
qed

lemma scan_latex_length:
  "length (scan_latex b cur acc ls)
     = length acc + (length (filter is_delimiter ls) + (if b then 1 else 0)) div 2"
  by (induction ls arbitrary: b cur acc) auto

lemma scan_latex_no_delimiter:
  "\<forall>l\<in>set ls. \<not> is_delimiter l \<Longrightarrow> scan_latex b cur acc ls = acc"
  by (induction ls arbitrary: cur) auto

lemma scan_latex_unmatched:
  assumes "is_delimiter d" and "\<forall>l\<in>set post. \<not> is_delimiter l"
  shows "odd (length (filter is_delimiter pre)) = b \<Longrightarrow>
         scan_latex b cur acc (pre @ d # post) = scan_latex b cur acc pre"
proof (induction pre arbitrary: b cur acc)
  case Nil
  then have "\<not> b" by simp
  with assms show ?case by (simp add: scan_latex_no_delimiter)
next
  case (Cons x pre)
  show ?case
  proof (cases "is_delimiter x")
    case True
    with Cons.prems have "odd (length (filter is_delimiter pre)) = (\<not> b)" by auto
    with True Cons.IH [of "\<not> b"] show ?thesis by (cases b) auto
  next
    case False
    with Cons.prems Cons.IH [of b] show ?thesis by auto
  qed
qed

lemma scan_latex_close:
  assumes "is_delimiter d" and "\<forall>l\<in>set seg. \<not> is_delimiter l"
  shows "scan_latex True cur acc (seg @ d # rest)
           = scan_latex False [] (acc @ [join [CHR 0x0A] (cur @ seg)]) rest"
  using assms(2)
proof (induction seg arbitrary: cur)
  case Nil
  with assms(1) show ?case by simp
next
  case (Cons x seg)
  then have "scan_latex True cur acc ((x # seg) @ d # rest)
               = scan_latex True (cur @ [x]) acc (seg @ d # rest)" by simp
  also have "\<dots> = scan_latex False [] (acc @ [join [CHR 0x0A] ((cur @ [x]) @ seg)]) rest"
    using Cons by simp
  finally show ?case by simp
qed

lemma scan_latex_matched:
  assumes "is_delimiter d1" and "is_delimiter d2" and "\<forall>l\<in>set seg. \<not> is_delimiter l"
  shows "odd (length (filter is_delimiter p)) = b \<Longrightarrow> (\<not> b \<longrightarrow> cur = []) \<Longrightarrow>
         scan_latex b cur acc (p @ d1 # seg @ d2 # q)
           = scan_latex b cur acc p @ [join [CHR 0x0A] seg] @ scan_latex False [] [] q"
proof (induction p arbitrary: b cur acc)
  case Nil
  then have "\<not> b" "cur = []" by simp_all
  then have "scan_latex b cur acc ([] @ d1 # seg @ d2 # q) = scan_latex True [] acc (seg @ d2 # q)"
    using assms(1) by simp
  also have "\<dots> = scan_latex False [] (acc @ [join [CHR 0x0A] seg]) q"
    using scan_latex_close [OF assms(2,3), of "[]" acc q] by simp
  also have "\<dots> = (acc @ [join [CHR 0x0A] seg]) @ scan_latex False [] [] q"
    by (rule scan_latex_blocks_prefix)
  finally show ?case by simp
next
  case (Cons x p)
  show ?case
  proof (cases "is_delimiter x")
    case True
    with Cons.prems have par: "odd (length (filter is_delimiter p)) = (\<not> b)" by auto
    show ?thesis
    proof (cases b)
      case True
      with \<open>is_delimiter x\<close> par Cons.IH [of False "[]" "acc @ [join [CHR 0x0A] cur]"]
      show ?thesis by simp
    next
      case False
      with \<open>is_delimiter x\<close> par Cons.IH [of True cur acc] show ?thesis by simp
    qed
  next
    case False
    show ?thesis
    proof (cases b)
      case True
      with False Cons.prems Cons.IH [of True "cur @ [x]" acc] show ?thesis by simp
    next
      case nb: False
      with False Cons.prems Cons.IH [of False cur acc] show ?thesis by simp
    qed
  qed
qed

lemma scan_latex_block_shape:
  assumes "blk \<in> set (scan_latex b cur [] ls)" and "\<not> b \<longrightarrow> cur = []"
  shows "(b \<and> (\<exists>seg d2 q. ls = seg @ d2 # q \<and> is_delimiter d2 \<and> (\<forall>l\<in>set seg. \<not> is_delimiter l)
                  \<and> blk = join [CHR 0x0A] (cur @ seg)))
         \<or> (\<exists>p d1 seg d2 q. ls = p @ d1 # seg @ d2 # q \<and> odd (length (filter is_delimiter p)) = b
                  \<and> is_delimiter d1 \<and> is_delimiter d2
                  \<and> (\<forall>l\<in>set seg. \<not> is_delimiter l) \<and> blk = join [CHR 0x0A] seg)"
  using assms
proof (induction ls arbitrary: b cur)
  case Nil
  then show ?case by simp
next
  case (Cons x ls)
  let ?coll = "\<lambda>b ls. \<exists>p d1 seg d2 q. ls = p @ d1 # seg @ d2 # q
                  \<and> odd (length (filter is_delimiter p)) = b \<and> is_delimiter d1 \<and> is_delimiter d2
                  \<and> (\<forall>l\<in>set seg. \<not> is_delimiter l) \<and> blk = join [CHR 0x0A] seg"
  have lift: "?coll (if is_delimiter x then \<not> b else b) ls \<Longrightarrow> ?coll b (x # ls)"
  proof -
    assume "?coll (if is_delimiter x then \<not> b else b) ls"
    then obtain p d1 seg d2 q where "ls = p @ d1 # seg @ d2 # q"
      "odd (length (filter is_delimiter p)) = (if is_delimiter x then \<not> b else b)"
      "is_delimiter d1" "is_delimiter d2"
      "\<forall>l\<in>set seg. \<not> is_delimiter l" "blk = join [CHR 0x0A] seg" by blast
    then have "x # ls = (x # p) @ d1 # seg @ d2 # q
      \<and> odd (length (filter is_delimiter (x # p))) = b \<and> is_delimiter d1 \<and> is_delimiter d2
      \<and> (\<forall>l\<in>set seg. \<not> is_delimiter l) \<and> blk = join [CHR 0x0A] seg" by auto
    then show "?coll b (x # ls)" by blast
  qed
  show ?case
  proof (cases "is_delimiter x")
    case True
    show ?thesis
    proof (cases b)
      case True
      have "scan_latex b cur [] (x # ls) = [join [CHR 0x0A] cur] @ scan_latex False [] [] ls"
        using \<open>is_delimiter x\<close> True scan_latex_blocks_prefix [of False "[]" "[join [CHR 0x0A] cur]" ls]
        by simp
      with Cons.prems(1) consider "blk = join [CHR 0x0A] cur" | "blk \<in> set (scan_latex False [] [] ls)"
        by auto
      then show ?thesis
      proof cases
        case 1
        have "x # ls = [] @ x # ls \<and> is_delimiter x \<and> (\<forall>l\<in>set []. \<not> is_delimiter l)
              \<and> blk = join [CHR 0x0A] (cur @ [])"
          using 1 \<open>is_delimiter x\<close> by simp
        with True show ?thesis by blast
      next
        case 2
        from Cons.IH [OF 2] have "?coll False ls" by simp
        with True \<open>is_delimiter x\<close> have "?coll (if is_delimiter x then \<not> b else b) ls" by simp
        then show ?thesis using lift by blast
      qed
    next
      case False
      with Cons.prems(2) have cur: "cur = []" by simp
      from False \<open>is_delimiter x\<close> Cons.prems(1) have "blk \<in> set (scan_latex True cur [] ls)" by simp
      from Cons.IH [OF this] have
        "(\<exists>seg d2 q. ls = seg @ d2 # q \<and> is_delimiter d2 \<and> (\<forall>l\<in>set seg. \<not> is_delimiter l)
            \<and> blk = join [CHR 0x0A] (cur @ seg)) \<or> ?coll True ls"
        by simp
      then consider
        (first) seg d2 q where "ls = seg @ d2 # q" "is_delimiter d2" "\<forall>l\<in>set seg. \<not> is_delimiter l"
            "blk = join [CHR 0x0A] (cur @ seg)"
        | (later) "?coll True ls" by blast
      then show ?thesis
      proof cases
        case first
        then have "x # ls = [] @ x # seg @ d2 # q \<and> odd (length (filter is_delimiter [])) = b
           \<and> is_delimiter x \<and> is_delimiter d2
           \<and> (\<forall>l\<in>set seg. \<not> is_delimiter l) \<and> blk = join [CHR 0x0A] seg"
          using cur False \<open>is_delimiter x\<close> by simp
        then have "?coll b (x # ls)" by blast
        then show ?thesis by blast
      next
        case later
        with False \<open>is_delimiter x\<close> have "?coll (if is_delimiter x then \<not> b else b) ls" by simp
        then show ?thesis using lift by blast
      qed
    qed
  next
    case nd: False
    show ?thesis
    proof (cases b)
      case True
      from True nd Cons.prems(1) have "blk \<in> set (scan_latex True (cur @ [x]) [] ls)" by simp
      from Cons.IH [OF this] have
        "(\<exists>seg d2 q. ls = seg @ d2 # q \<and> is_delimiter d2 \<and> (\<forall>l\<in>set seg. \<not> is_delimiter l)
            \<and> blk = join [CHR 0x0A] ((cur @ [x]) @ seg)) \<or> ?coll True ls"
        by simp
      then consider
        (first) seg d2 q where "ls = seg @ d2 # q" "is_delimiter d2" "\<forall>l\<in>set seg. \<not> is_delimiter l"
            "blk = join [CHR 0x0A] ((cur @ [x]) @ seg)"
        | (later) "?coll True ls" by blast
      then show ?thesis
      proof cases
        case first
        then have "x # ls = (x # seg) @ d2 # q \<and> is_delimiter d2
           \<and> (\<forall>l\<in>set (x # seg). \<not> is_delimiter l) \<and> blk = join [CHR 0x0A] (cur @ (x # seg))"
          using nd by simp
        with True show ?thesis by blast
      next
        case later
        with True nd have "?coll (if is_delimiter x then \<not> b else b) ls" by simp
        then show ?thesis using lift by blast
      qed
    next
      case False
      with nd Cons.prems have "blk \<in> set (scan_latex False cur [] ls)" "cur = []" by simp_all
      from Cons.IH [OF this(1)] False \<open>cur = []\<close> have "?coll False ls" by simp
      with False nd have "?coll (if is_delimiter x then \<not> b else b) ls" by simp
      then show ?thesis using lift by blast
    qed
  qed
qed

lemma parse_nougat_latex_fields:
  assumes "parse_nougat fo rn od path pr tmo = Inr r"
  shows "latex_equations_count r = map_option (\<lambda>bs. int (length bs)) (latex_blocks r)"
proof (cases "rn (nougat_command path od) tmo")
  case (Finished content)
  show ?thesis
  proof (cases "fo path")
    case (Inl e)
    with Finished assms show ?thesis by (auto simp: parse_nougat_def Let_def empty_result_def)
  next
    case (Inr doc)
    with Finished assms show ?thesis
      by (cases content) (auto simp: parse_nougat_def Let_def empty_result_def nougat_latex_result_def)
  qed
qed (use assms in \<open>auto simp: parse_nougat_def Let_def empty_result_def split: sum.splits\<close>)

lemma parse_nougat_latex_blocks:
  assumes "rn (nougat_command path od) tmo = Finished (Some md)" and "fo path = Inr doc"
  shows "\<exists>r. parse_nougat fo rn od path pr tmo = Inr r \<and> markdown r = Some md
           \<and> latex_blocks r = Some (scan_latex False [] [] (split_on (CHR 0x0A) md))"
  using assms
  by (simp add: parse_nougat_def Let_def nougat_latex_result_def extract_latex_blocks_def)

text \<open>
  C10. In the scan of the generated markup for fenced math blocks, a block is collected
  only between a delimiter line and the next delimiter line that matches it: the number
  of blocks is half the number of delimiter lines, rounded down; every block is the
  lines strictly between an opening delimiter (one with an even number of delimiters
  before it) and the next delimiter, none of them a delimiter line; such a pair always
  gives its block; the lines after a final unmatched delimiter add nothing; and
  \<open>latex_equations_count\<close> is the length of \<open>latex_blocks\<close> in every result of
  \<open>parse_nougat\<close>.
\<close>

theorem latex_blocks_between_matched_delimiters:
  "length (scan_latex False [] [] ls) = length (filter is_delimiter ls) div 2
   \<and> (\<forall>blk\<in>set (scan_latex False [] [] ls).
        \<exists>p d1 seg d2 q. ls = p @ d1 # seg @ d2 # q \<and> even (length (filter is_delimiter p))
          \<and> is_delimiter d1 \<and> is_delimiter d2 \<and> (\<forall>l\<in>set seg. \<not> is_delimiter l)
          \<and> blk = join [CHR 0x0A] seg)
   \<and> (even (length (filter is_delimiter pre)) \<and> is_delimiter d \<and> (\<forall>l\<in>set post. \<not> is_delimiter l)
        \<longrightarrow> scan_latex False [] [] (pre @ d # post) = scan_latex False [] [] pre)
   \<and> (even (length (filter is_delimiter pre)) \<and> is_delimiter d \<and> (\<forall>l\<in>set mid. \<not> is_delimiter l)
        \<and> is_delimiter d'
        \<longrightarrow> scan_latex False [] [] (pre @ d # mid @ d' # post)
              = scan_latex False [] [] pre @ [join [CHR 0x0A] mid] @ scan_latex False [] [] post)
   \<and> (parse_nougat fo rn od path pr tmo = Inr r
        \<longrightarrow> latex_equations_count r = map_option (\<lambda>bs. int (length bs)) (latex_blocks r))
   \<and> (rn (nougat_command path od) tmo = Finished (Some md) \<and> fo path = Inr doc
        \<longrightarrow> (\<exists>r'. parse_nougat fo rn od path pr tmo = Inr r' \<and> markdown r' = Some md
               \<and> latex_blocks r' = Some (scan_latex False [] [] (split_on (CHR 0x0A) md))))"
proof (intro conjI)
  show "length (scan_latex False [] [] ls) = length (filter is_delimiter ls) div 2"
    by (simp add: scan_latex_length)
  show "\<forall>blk\<in>set (scan_latex False [] [] ls).
        \<exists>p d1 seg d2 q. ls = p @ d1 # seg @ d2 # q \<and> even (length (filter is_delimiter p))
          \<and> is_delimiter d1 \<and> is_delimiter d2 \<and> (\<forall>l\<in>set seg. \<not> is_delimiter l)
          \<and> blk = join [CHR 0x0A] seg"
  proof
    fix blk assume "blk \<in> set (scan_latex False [] [] ls)"
    from scan_latex_block_shape [OF this] show
      "\<exists>p d1 seg d2 q. ls = p @ d1 # seg @ d2 # q \<and> even (length (filter is_delimiter p))
          \<and> is_delimiter d1 \<and> is_delimiter d2 \<and> (\<forall>l\<in>set seg. \<not> is_delimiter l)
          \<and> blk = join [CHR 0x0A] seg"
      by simp
  qed
  show "even (length (filter is_delimiter pre)) \<and> is_delimiter d \<and> (\<forall>l\<in>set post. \<not> is_delimiter l)
        \<longrightarrow> scan_latex False [] [] (pre @ d # post) = scan_latex False [] [] pre"
    using scan_latex_unmatched [of d post pre False "[]" "[]"] by simp
  show "even (length (filter is_delimiter pre)) \<and> is_delimiter d \<and> (\<forall>l\<in>set mid. \<not> is_delimiter l)
        \<and> is_delimiter d'
        \<longrightarrow> scan_latex False [] [] (pre @ d # mid @ d' # post)
              = scan_latex False [] [] pre @ [join [CHR 0x0A] mid] @ scan_latex False [] [] post"
    using scan_latex_matched [of d d' mid pre False "[]" "[]" post] by simp
  show "parse_nougat fo rn od path pr tmo = Inr r
        \<longrightarrow> latex_equations_count r = map_option (\<lambda>bs. int (length bs)) (latex_blocks r)"
    using parse_nougat_latex_fields by blast
  show "rn (nougat_command path od) tmo = Finished (Some md) \<and> fo path = Inr doc
        \<longrightarrow> (\<exists>r'. parse_nougat fo rn od path pr tmo = Inr r' \<and> markdown r' = Some md
               \<and> latex_blocks r' = Some (scan_latex False [] [] (split_on (CHR 0x0A) md)))"
    using parse_nougat_latex_blocks by blast
qed


theorem latex_blocks_between_matched_delimiters_witness:
  "even (length (filter is_delimiter [''a'', ''$$'', ''x=1'', ''y'', [CHR 0xC2, CHR 0xA0, CHR ''$'', CHR ''$'']]))
   \<and> is_delimiter ''$$''
   \<and> is_delimiter [CHR 0xC2, CHR 0xA0, CHR ''$'', CHR ''$'']
   \<and> \<not> is_delimiter ''dangling''
   \<and> scan_latex False [] [] ([''a'', ''$$'', ''x=1'', ''y'', [CHR 0xC2, CHR 0xA0, CHR ''$'', CHR ''$'']] @ ''$$'' # [''dangling''])
       = [''x=1'' @ [CHR 0x0A] @ ''y'']
   \<and> length (scan_latex False [] [] [''a'', ''$$'', ''x=1'', ''y'', [CHR 0xC2, CHR 0xA0, CHR ''$'', CHR ''$''], ''$$'', ''dangling'']) = 1
   \<and> (\<exists>r. parse_nougat (\<lambda>p. Inr \<lparr>doc_metadata = [], doc_pages = []\<rparr>)
              (\<lambda>c t. Finished (Some (''a'' @ [CHR 0x0A, CHR 0xC2, CHR 0xA0] @ ''$$'' @ [CHR 0x0A] @ ''b'' @ [CHR 0x0A] @ ''$$'' @ [CHR 0x0A] @ ''c'')))
              ''out'' ''a.pdf'' None 1800 = Inr r
            \<and> latex_blocks r = Some [''b''] \<and> latex_equations_count r = Some 1)"
  using latex_blocks_between_matched_delimiters
    [of "[''a'', ''$$'', ''x=1'', ''y'', [CHR 0xC2, CHR 0xA0, CHR ''$'', CHR ''$''], ''$$'', ''dangling'']"
        "[''a'', ''$$'', ''x=1'', ''y'', [CHR 0xC2, CHR 0xA0, CHR ''$'', CHR ''$'']]" "''$$''" "[''dangling'']" "[]" "''$$''"
        "\<lambda>p. Inr \<lparr>doc_metadata = [], doc_pages = []\<rparr>"
        "\<lambda>c t. Finished (Some (''a'' @ [CHR 0x0A, CHR 0xC2, CHR 0xA0] @ ''$$'' @ [CHR 0x0A] @ ''b'' @ [CHR 0x0A] @ ''$$'' @ [CHR 0x0A] @ ''c''))"
        "''out''" "''a.pdf''" None 1800]
  by (simp add: is_delimiter_def strip_def startswith_def isspace_def whitespace_def
        is_continuation_def parse_nougat_def
        nougat_latex_result_def extract_latex_blocks_def empty_result_def)

section \<open>Properties of the metrics and of the chunking preview\<close>

text \<open>
  C3, as the code has it. The equation estimate is 1 for \<open>$E=mc^2$\<close>. For \<open>$$x$$\<close>
  it is 3: the display pattern matches the span once, and the inline pattern matches
  each of the two \<open>$$\<close> delimiters as an inline span with nothing inside.
\<close>

theorem equation_count_examples:
  "estimated_equation_count ''$E=mc^2$'' = 1
   \<and> inline_eq_count ''$$x$$'' = 2
   \<and> display_eq_count ''$$x$$'' = 1
   \<and> estimated_equation_count ''$$x$$'' = 3"
  by (simp add: estimated_equation_count_def inline_eq_count_def display_eq_count_def)

text \<open>
  C3 as the specification states it, that both inputs give the estimate 1, does not
  hold.
\<close>

theorem equation_count_display_not_once:
  "\<not> (estimated_equation_count ''$E=mc^2$'' = 1 \<and> estimated_equation_count ''$$x$$'' = 1)"
  by (simp add: estimated_equation_count_def inline_eq_count_def display_eq_count_def)

lemma length_py_slice_to:
  "length (py_slice_to xs m)
     = (if m < 0 then nat (int (length xs) + m) else min (length xs) (nat m))"
  by (auto simp: py_slice_to_def slice_index_def)

text \<open>
  C8, as the code has it. For every text, strategy and parameters, the reported total
  is at least the number of chunks returned, and it does not depend on the preview
  limit. When the limit is not negative, the two are equal exactly when the total is at
  most the limit. When the parameters pass the validation and the splitter returns,
  the total is the number of chunks the splitter produced and the preview is the
  slice \<open>chunks[:max_preview_chunks]\<close>.
\<close>

theorem chunk_preview_total:
  "int (length (chunks (get_chunking_preview split_text t strategy cs co m)))
      \<le> total_chunks (get_chunking_preview split_text t strategy cs co m)
   \<and> total_chunks (get_chunking_preview split_text t strategy cs co m)
      = total_chunks (get_chunking_preview split_text t strategy cs co m')
   \<and> (0 \<le> m \<longrightarrow>
        (int (length (chunks (get_chunking_preview split_text t strategy cs co m)))
           = total_chunks (get_chunking_preview split_text t strategy cs co m))
        = (total_chunks (get_chunking_preview split_text t strategy cs co m) \<le> m))
   \<and> (0 < cs \<and> 0 \<le> co \<and> co < cs \<and> strategy = ''recursive''
        \<and> split_text cs co t = Inr all_chunks \<longrightarrow>
        total_chunks (get_chunking_preview split_text t strategy cs co m) = int (length all_chunks)
        \<and> chunks (get_chunking_preview split_text t strategy cs co m) = py_slice_to all_chunks m)"
  by (auto simp: get_chunking_preview_def Let_def length_py_slice_to split: sum.splits)

theorem chunk_preview_total_witness:
  "(0::int) \<le> 2
   \<and> total_chunks (get_chunking_preview (\<lambda>cs co t. Inr [''ab'', ''cd'', ''ef'']) ''abcdef'' ''recursive'' 2 0 2) = 3
   \<and> chunks (get_chunking_preview (\<lambda>cs co t. Inr [''ab'', ''cd'', ''ef'']) ''abcdef'' ''recursive'' 2 0 2)
       = [''ab'', ''cd'']
   \<and> total_chunks (get_chunking_preview (\<lambda>cs co t. Inr [''ab'', ''cd'', ''ef'']) ''abcdef'' ''recursive'' 2 0 5) = 3"
  using chunk_preview_total
    [of "\<lambda>cs co t. Inr [''ab'', ''cd'', ''ef'']" "''abcdef''" "''recursive''" 2 0 2 5
        "[''ab'', ''cd'', ''ef'']"]
  by (simp add: py_slice_to_def slice_index_def)

text \<open>
  C8 as the specification states it fails for a negative preview limit, which the
  validation does not reject: on the empty text the splitter returns no chunk, the
  preview is empty and equal in length to the total 0, yet 0 is not at most \<open>-1\<close>.
\<close>

theorem chunk_preview_negative_limit:
  "int (length (chunks (get_chunking_preview (\<lambda>cs co t. Inr (if t = [] then [] else [t])) [] ''recursive'' 1000 100 (- 1))))
     = total_chunks (get_chunking_preview (\<lambda>cs co t. Inr (if t = [] then [] else [t])) [] ''recursive'' 1000 100 (- 1))
   \<and> \<not> total_chunks (get_chunking_preview (\<lambda>cs co t. Inr (if t = [] then [] else [t])) [] ''recursive'' 1000 100 (- 1)) \<le> - 1
   \<and> preview_error (get_chunking_preview (\<lambda>cs co t. Inr (if t = [] then [] else [t])) [] ''recursive'' 1000 100 (- 1)) = None"
  by (simp add: get_chunking_preview_def py_slice_to_def slice_index_def)


section \<open>Properties of the choice of one text\<close>

text \<open>
  C6, as the code has it. The metrics and the chunking preview take the text by the
  precedence markdown, then text, then structured text. The difference view and the
  DOCX export take markdown, then text, and never the structured text: with neither
  key present they work on the empty string. Whenever a result has markdown or text,
  all four places agree with the precedence.
\<close>

theorem primary_text_selection:
  "metrics_primary_text d = precedence_text d
   \<and> chunk_source_text d = precedence_text d
   \<and> diff_text d = (case markdown d of Some m \<Rightarrow> m
                     | None \<Rightarrow> (case text_field d of Some t \<Rightarrow> t | None \<Rightarrow> []))
   \<and> primary_text_for_docx d = diff_text d
   \<and> (markdown d \<noteq> None \<or> text_field d \<noteq> None \<longrightarrow>
        diff_text d = precedence_text d \<and> primary_text_for_docx d = precedence_text d)"
  by (auto simp: metrics_primary_text_def chunk_source_text_def diff_text_def
        primary_text_for_docx_def precedence_text_def dict_get_def split: option.splits)

theorem primary_text_selection_witness:
  "text_field (empty_result\<lparr>text_field := Some ''abc'', metadata := Some [], error := None\<rparr>) = Some ''abc''
   \<and> diff_text (empty_result\<lparr>text_field := Some ''abc'', metadata := Some [], error := None\<rparr>) = ''abc''
   \<and> primary_text_for_docx (empty_result\<lparr>text_field := Some ''abc'', metadata := Some [], error := None\<rparr>) = ''abc''
   \<and> metrics_primary_text (empty_result\<lparr>text_field := Some ''abc'', metadata := Some [], error := None\<rparr>) = ''abc''"
  using primary_text_selection
    [of "empty_result\<lparr>text_field := Some ''abc'', metadata := Some [], error := None\<rparr>"]
  by (simp add: empty_result_def precedence_text_def)

text \<open>
  C6 as the specification states it fails at the difference view and at the DOCX
  export: for a result that holds only structured text, as the structure extractor
  returns it, the precedence gives the structured text and both places give the empty
  string.
\<close>

theorem structured_text_not_selected:
  "diff_text (empty_result\<lparr>metadata := Some [], structured_text := Some ''<TEI/>'', error := None\<rparr>)
     \<noteq> precedence_text (empty_result\<lparr>metadata := Some [], structured_text := Some ''<TEI/>'', error := None\<rparr>)
   \<and> primary_text_for_docx (empty_result\<lparr>metadata := Some [], structured_text := Some ''<TEI/>'', error := None\<rparr>) = []
   \<and> precedence_text (empty_result\<lparr>metadata := Some [], structured_text := Some ''<TEI/>'', error := None\<rparr>) = ''<TEI/>''"
  by (simp add: diff_text_def primary_text_for_docx_def precedence_text_def dict_get_def
        empty_result_def)

section \<open>Properties of the page range\<close>


















lemma clamped_range_empty:
  fixes s e n :: int
  assumes "e < s \<or> e < 1" and "0 \<le> n"
  shows "min n e \<le> max 0 (s - 1)"
  using assms by (auto simp: min_def max_def)

lemma invalid_range_message_truthy: "truthy (Some (invalid_range_message r))"
  by (simp add: truthy_def invalid_range_message_def)

lemma pdfplumber_error_truthy: "truthy (Some (pdfplumber_error e))"
  by (simp add: truthy_def pdfplumber_error_def)

lemma parse_pdfplumber_empty_range:
  assumes "e < s \<or> e < 1"
  shows "parse_pdfplumber po path (Some (s, e))
           = empty_result\<lparr>text_field := Some [], tables := Some [],
               error := Some (case po path of Inl x \<Rightarrow> pdfplumber_error x
                                | Inr pages \<Rightarrow> invalid_range_message (s, e))\<rparr>"
proof (cases "po path")
  case (Inl x)
  then show ?thesis by (simp add: parse_pdfplumber_def Let_def)
next
  case (Inr pages)
  have "min (int (length pages)) e \<le> max 0 (s - 1)"
    using assms by (intro clamped_range_empty) simp_all
  with Inr show ?thesis
    by (simp add: parse_pdfplumber_def pdfplumber_pages_to_process_def Let_def)
qed

lemma parse_ocr_empty_range:
  assumes "e < s \<or> e < 1"
  shows "parse_ocr fo path lng (Some (s, e)) dpi
           = Inr (empty_result\<lparr>text_field := Some [],
               error := Some (case fo path of Inl x \<Rightarrow> ''OCR Workflow Error: '' @ x
                                | Inr doc \<Rightarrow> invalid_range_message (s, e))\<rparr>)"
proof (cases "fo path")
  case (Inl x)
  then show ?thesis by (simp add: parse_ocr_def Let_def)
next
  case (Inr doc)
  have "min (page_count doc) e \<le> max 0 (s - 1)"
    using assms by (intro clamped_range_empty) (simp_all add: page_count_def)
  with Inr show ?thesis
    by (simp add: parse_ocr_def ocr_pages_to_process_def Let_def)
qed

lemma parse_pymupdf_reversed_range:
  assumes "e < s" and "fo path = Inr doc"
  shows "parse_pymupdf fo path (Some (s, e))
           = empty_result\<lparr>text_field := Some [], metadata := Some (doc_metadata doc), error := None\<rparr>"
proof -
  have "min (page_count doc) e - 1 < max 0 (s - 1)" using assms(1) by auto
  then have "pymupdf_pages_to_process (page_count doc) (Some (s, e)) = []"
    by (simp add: pymupdf_pages_to_process_def Let_def py_range_def)
  with assms(2) show ?thesis by (simp add: parse_pymupdf_def Let_def)
qed

text \<open>
  C1, as the code has it. For the layout and the OCR back end, a page range \<open>(s, e)\<close>
  with \<open>s > e\<close> or \<open>e < 1\<close> gives a result whose error is set and whose content
  fields are empty; when the document opens, the error is the invalid page range
  message. A start below 1 with \<open>e \<ge> 1\<close> is clamped to the first page: on a document
  with at least one page the range is processed from the first page on.
\<close>

theorem empty_range_is_error:
  assumes "e < s \<or> e < 1"
  shows "truthy (error (parse_pdfplumber po path (Some (s, e))))
         \<and> no_content (parse_pdfplumber po path (Some (s, e)))
         \<and> (\<exists>r. parse_ocr fo path lng (Some (s, e)) dpi = Inr r
                \<and> truthy (error r) \<and> no_content r
                \<and> (fo path = Inr doc \<longrightarrow> error r = Some (invalid_range_message (s, e))))
         \<and> (po path = Inr pages \<longrightarrow>
              error (parse_pdfplumber po path (Some (s, e))) = Some (invalid_range_message (s, e)))
         \<and> (s' < 1 \<and> 1 \<le> e' \<and> xs \<noteq> [] \<longrightarrow>
              pdfplumber_pages_to_process xs (Some (s', e')) = Inr (take (nat e') xs))
         \<and> (s' < 1 \<and> 1 \<le> e' \<and> 1 \<le> n \<longrightarrow>
              ocr_pages_to_process n (Some (s', e')) = Inr [0..min n e' - 1])"
proof -
  have clamp1: "s' < 1 \<and> 1 \<le> e' \<and> xs \<noteq> [] \<longrightarrow>
        pdfplumber_pages_to_process xs (Some (s', e')) = Inr (take (nat e') xs)"
    by (auto simp: pdfplumber_pages_to_process_def Let_def py_slice_def slice_index_def
          min_def max_def)
  have clamp2: "s' < 1 \<and> 1 \<le> e' \<and> 1 \<le> n \<longrightarrow>
        ocr_pages_to_process n (Some (s', e')) = Inr [0..min n e' - 1]"
    by (auto simp: ocr_pages_to_process_def Let_def py_range_def min_def max_def)
  have "truthy (Some (case po path of Inl x \<Rightarrow> pdfplumber_error x
                        | Inr pages \<Rightarrow> invalid_range_message (s, e)))"
    using invalid_range_message_truthy pdfplumber_error_truthy by (cases "po path") simp_all
  moreover have "truthy (Some (case fo path of Inl x \<Rightarrow> ''OCR Workflow Error: '' @ x
                        | Inr doc \<Rightarrow> invalid_range_message (s, e)))"
    using invalid_range_message_truthy by (cases "fo path") (simp_all add: truthy_def)
  ultimately have "truthy (error (parse_pdfplumber po path (Some (s, e))))
         \<and> no_content (parse_pdfplumber po path (Some (s, e)))
         \<and> (\<exists>r. parse_ocr fo path lng (Some (s, e)) dpi = Inr r
                \<and> truthy (error r) \<and> no_content r
                \<and> (fo path = Inr doc \<longrightarrow> error r = Some (invalid_range_message (s, e))))
         \<and> (po path = Inr pages \<longrightarrow>
              error (parse_pdfplumber po path (Some (s, e))) = Some (invalid_range_message (s, e)))"
    unfolding parse_pdfplumber_empty_range [OF assms] parse_ocr_empty_range [OF assms]
    by (simp add: no_content_def empty_result_def truthy_def)
  with clamp1 clamp2 show ?thesis by blast
qed

theorem empty_range_is_error_witness:
  "((2::int) < 3 \<or> (2::int) < 1)
   \<and> error (parse_pdfplumber
        (\<lambda>p. Inr [\<lparr>page_number = 1, extract_text = Inr (Some ''one''), extract_tables = Inr []\<rparr>,
                  \<lparr>page_number = 2, extract_text = Inr (Some ''two''), extract_tables = Inr []\<rparr>])
        ''a.pdf'' (Some (3, 2)))
       = Some ''Invalid page range: (3, 2). Start page must be less than end page.''
   \<and> text_field (parse_pdfplumber
        (\<lambda>p. Inr [\<lparr>page_number = 1, extract_text = Inr (Some ''one''), extract_tables = Inr []\<rparr>,
                  \<lparr>page_number = 2, extract_text = Inr (Some ''two''), extract_tables = Inr []\<rparr>])
        ''a.pdf'' (Some (3, 2))) = Some []
   \<and> parse_ocr
        (\<lambda>p. Inr \<lparr>doc_metadata = [], doc_pages =
                  [\<lparr>get_text = Inr ''one'', image_to_string = (\<lambda>d l. Recognised ''one'')\<rparr>,
                   \<lparr>get_text = Inr ''two'', image_to_string = (\<lambda>d l. Recognised ''two'')\<rparr>]\<rparr>)
        ''a.pdf'' ''eng'' (Some (3, 2)) 300
       = Inr (empty_result\<lparr>text_field := Some [], error :=
                Some ''Invalid page range: (3, 2). Start page must be less than end page.''\<rparr>)
   \<and> pdfplumber_pages_to_process [''p1'', ''p2'', ''p3''] (Some (0, 2)) = Inr [''p1'', ''p2'']
   \<and> ocr_pages_to_process 3 (Some (0, 2)) = Inr [0, 1]"
  using empty_range_is_error [of 2 3
      "\<lambda>p. Inr [\<lparr>page_number = 1, extract_text = Inr (Some ''one''), extract_tables = Inr []\<rparr>,
                \<lparr>page_number = 2, extract_text = Inr (Some ''two''), extract_tables = Inr []\<rparr>]"
      "''a.pdf''"
      "\<lambda>p. Inr \<lparr>doc_metadata = [], doc_pages =
                  [\<lparr>get_text = Inr ''one'', image_to_string = (\<lambda>d l. Recognised ''one'')\<rparr>,
                   \<lparr>get_text = Inr ''two'', image_to_string = (\<lambda>d l. Recognised ''two'')\<rparr>]\<rparr>"
      "''eng''" 300
      "\<lparr>doc_metadata = [], doc_pages =
                  [\<lparr>get_text = Inr ''one'', image_to_string = (\<lambda>d l. Recognised ''one'')\<rparr>,
                   \<lparr>get_text = Inr ''two'', image_to_string = (\<lambda>d l. Recognised ''two'')\<rparr>]\<rparr>"
      "[\<lparr>page_number = 1, extract_text = Inr (Some ''one''), extract_tables = Inr []\<rparr>,
        \<lparr>page_number = 2, extract_text = Inr (Some ''two''), extract_tables = Inr []\<rparr>]"
      0 2 "[''p1'', ''p2'', ''p3'']" 3]
  by (simp add: upto.simps parse_pdfplumber_def pdfplumber_pages_to_process_def empty_result_def
        parse_ocr_def ocr_pages_to_process_def page_count_def
        invalid_range_message_def repr_range_def str_int_def str_nat.simps digit_char_def)

text \<open>
  C1 as the specification states it fails for \<open>s < 1\<close>: the range \<open>(0, 2)\<close> on a
  document of two pages is processed by the layout back end without an error, and the
  text of both pages is returned.
\<close>

theorem start_below_one_is_clamped:
  "\<not> truthy (error (parse_pdfplumber
        (\<lambda>p. Inr [\<lparr>page_number = 1, extract_text = Inr (Some ''one''), extract_tables = Inr []\<rparr>,
                  \<lparr>page_number = 2, extract_text = Inr (Some ''two''), extract_tables = Inr []\<rparr>])
        ''a.pdf'' (Some (0, 2))))
   \<and> text_field (parse_pdfplumber
        (\<lambda>p. Inr [\<lparr>page_number = 1, extract_text = Inr (Some ''one''), extract_tables = Inr []\<rparr>,
                  \<lparr>page_number = 2, extract_text = Inr (Some ''two''), extract_tables = Inr []\<rparr>])
        ''a.pdf'' (Some (0, 2)))
       = Some (''one'' @ [CHR 0x0A] @ ''---'' @ [CHR 0x0A] @ ''two'')
   \<and> \<not> no_content (parse_pdfplumber
        (\<lambda>p. Inr [\<lparr>page_number = 1, extract_text = Inr (Some ''one''), extract_tables = Inr []\<rparr>,
                  \<lparr>page_number = 2, extract_text = Inr (Some ''two''), extract_tables = Inr []\<rparr>])
        ''a.pdf'' (Some (0, 2)))"
  by (simp add: parse_pdfplumber_def pdfplumber_pages_to_process_def empty_result_def
        py_slice_def slice_index_def truthy_def no_content_def)



section \<open>Properties of the run over the selected back ends\<close>

lemma map_of_replace_same:
  "k \<in> set (map fst d) \<Longrightarrow> map_of (map (\<lambda>kv. if fst kv = k then (k, v) else kv) d) k = Some v"
  by (induction d) auto

lemma map_of_replace_other:
  "k' \<noteq> k \<Longrightarrow> map_of (map (\<lambda>kv. if fst kv = k then (k, v) else kv) d) k' = map_of d k'"
  by (induction d) auto

lemma map_of_dict_set:
  "map_of (dict_set k v d) k' = (if k' = k then Some v else map_of d k')"
proof (cases "k \<in> set (map fst d)")
  case True
  then show ?thesis
    by (cases "k' = k") (simp_all add: dict_set_def map_of_replace_same map_of_replace_other)
next
  case False
  then have "map_of d k = None" by (simp add: map_of_eq_None_iff)
  with False show ?thesis by (auto simp: dict_set_def map_add_def split: option.splits)
qed

lemma run_parser_registered:
  assumes "name \<in> set (map fst registry)"
  shows "\<exists>rs. run_parser registry ocr st name cr = Inr rs"
proof -
  from assms obtain f where "map_of registry name = Some f"
    by (metis map_of_eq_None_iff not_Some_eq set_map)
  then show ?thesis
    by (auto simp: run_parser_def Let_def split: sum.splits)
qed

lemma run_parser_other:
  assumes "name \<in> set (map fst registry)" and "name \<noteq> ''Nougat''"
  shows "\<exists>x. run_parser registry ocr st name cr = Inr (dict_set name x cr)"
proof -
  from assms(1) obtain f where "map_of registry name = Some f"
    by (metis map_of_eq_None_iff not_Some_eq set_map)
  with assms(2) show ?thesis
    by (auto simp: run_parser_def Let_def split: sum.splits)
qed

lemma run_parser_nougat_fallback:
  assumes "map_of registry ''Nougat'' = Some nf"
    and "nf (build_params st ''Nougat'') = Inr r" and "truthy (error r)"
    and "''OCR (Tesseract)'' \<in> set (map fst registry)"
    and "ocr (ocr_params st) = Inr fb"
  shows "run_parser registry ocr st ''Nougat'' cr
           = Inr (dict_set ''OCR Fallback'' fb (dict_set ''Nougat'' r cr))"
  using assms by (simp add: run_parser_def Let_def)

lemma run_parsers_keep_fallback:
  assumes nougat: "map_of registry ''Nougat'' = Some nf"
    "nf (build_params st ''Nougat'') = Inr r" "truthy (error r)"
    "''OCR (Tesseract)'' \<in> set (map fst registry)" "ocr (ocr_params st) = Inr fb"
  shows "set names \<subseteq> set (map fst registry) \<Longrightarrow> ''OCR Fallback'' \<notin> set names \<Longrightarrow>
         map_of cr ''Nougat'' = Some r \<and> map_of cr ''OCR Fallback'' = Some fb \<Longrightarrow>
         \<exists>rs. run_parsers registry ocr st names cr = Inr rs
              \<and> map_of rs ''Nougat'' = Some r \<and> map_of rs ''OCR Fallback'' = Some fb"
proof (induction names arbitrary: cr)
  case Nil
  then show ?case by simp
next
  case (Cons name names)
  have "\<exists>cr'. run_parser registry ocr st name cr = Inr cr'
          \<and> map_of cr' ''Nougat'' = Some r \<and> map_of cr' ''OCR Fallback'' = Some fb"
  proof (cases "name = ''Nougat''")
    case True
    then show ?thesis
      using run_parser_nougat_fallback [where registry=registry and nf=nf and st=st and r=r and ocr=ocr and fb=fb and cr=cr, OF nougat] by (simp add: map_of_dict_set)
  next
    case False
    with Cons.prems(1) obtain x where "run_parser registry ocr st name cr = Inr (dict_set name x cr)"
      using run_parser_other [of name registry ocr st cr] by auto
    moreover from Cons.prems(2) have "name \<noteq> ''OCR Fallback''" by auto
    ultimately show ?thesis using False Cons.prems(3) by (simp add: map_of_dict_set)
  qed
  then obtain cr' where step: "run_parser registry ocr st name cr = Inr cr'"
    and inv: "map_of cr' ''Nougat'' = Some r \<and> map_of cr' ''OCR Fallback'' = Some fb" by blast
  from Cons.prems have "set names \<subseteq> set (map fst registry)" "''OCR Fallback'' \<notin> set names"
    by auto
  from Cons.IH [OF this inv] step show ?case by simp
qed

lemma run_parsers_nougat_fallback:
  assumes nougat: "map_of registry ''Nougat'' = Some nf"
    "nf (build_params st ''Nougat'') = Inr r" "truthy (error r)"
    "''OCR (Tesseract)'' \<in> set (map fst registry)" "ocr (ocr_params st) = Inr fb"
  shows "set names \<subseteq> set (map fst registry) \<Longrightarrow> ''OCR Fallback'' \<notin> set names \<Longrightarrow>
         ''Nougat'' \<in> set names \<Longrightarrow>
         \<exists>rs. run_parsers registry ocr st names cr = Inr rs
              \<and> map_of rs ''Nougat'' = Some r \<and> map_of rs ''OCR Fallback'' = Some fb"
proof (induction names arbitrary: cr)
  case Nil
  then show ?case by simp
next
  case (Cons name names)
  from Cons.prems have rest: "set names \<subseteq> set (map fst registry)" "''OCR Fallback'' \<notin> set names"
    by auto
  show ?case
  proof (cases "name = ''Nougat''")
    case True
    let ?cr' = "dict_set ''OCR Fallback'' fb (dict_set ''Nougat'' r cr)"
    have step: "run_parser registry ocr st name cr = Inr ?cr'"
      using True run_parser_nougat_fallback [where registry=registry and nf=nf and st=st and r=r and ocr=ocr and fb=fb and cr=cr, OF nougat] by simp
    have "map_of ?cr' ''Nougat'' = Some r \<and> map_of ?cr' ''OCR Fallback'' = Some fb"
      by (simp add: map_of_dict_set)
    from run_parsers_keep_fallback
           [where registry=registry and nf=nf and st=st and r=r and ocr=ocr and fb=fb,
            OF nougat rest this]
         step show ?thesis by simp
  next
    case False
    with Cons.prems have "''Nougat'' \<in> set names" by simp
    moreover from Cons.prems(1) obtain cr' where "run_parser registry ocr st name cr = Inr cr'"
      using run_parser_registered [of name registry ocr st cr] by auto
    ultimately show ?thesis using Cons.IH [OF rest, of cr'] by simp
  qed
qed

lemma run_parser_nougat_raise:
  assumes "map_of registry ''Nougat'' = Some nf"
    and "nf (build_params st ''Nougat'') = Inr r" and "truthy (error r)"
    and "''OCR (Tesseract)'' \<in> set (map fst registry)"
    and "ocr (ocr_params st) = Inl e"
  shows "run_parser registry ocr st ''Nougat'' cr
           = Inr (dict_set ''Nougat'' (failed_result ''Nougat'' e) (dict_set ''Nougat'' r cr))"
  using assms by (simp add: run_parser_def Let_def)

lemma run_parsers_keep_failure:
  assumes nougat: "map_of registry ''Nougat'' = Some nf"
    "nf (build_params st ''Nougat'') = Inr r" "truthy (error r)"
    "''OCR (Tesseract)'' \<in> set (map fst registry)" "ocr (ocr_params st) = Inl e"
  shows "set names \<subseteq> set (map fst registry) \<Longrightarrow> ''OCR Fallback'' \<notin> set names \<Longrightarrow>
         map_of cr ''Nougat'' = Some (failed_result ''Nougat'' e)
           \<and> map_of cr ''OCR Fallback'' = None \<Longrightarrow>
         \<exists>rs. run_parsers registry ocr st names cr = Inr rs
              \<and> map_of rs ''Nougat'' = Some (failed_result ''Nougat'' e)
              \<and> map_of rs ''OCR Fallback'' = None"
proof (induction names arbitrary: cr)
  case Nil
  then show ?case by simp
next
  case (Cons name names)
  have "\<exists>cr'. run_parser registry ocr st name cr = Inr cr'
          \<and> map_of cr' ''Nougat'' = Some (failed_result ''Nougat'' e)
          \<and> map_of cr' ''OCR Fallback'' = None"
  proof (cases "name = ''Nougat''")
    case True
    then show ?thesis
      using run_parser_nougat_raise [where registry=registry and nf=nf and st=st and r=r and ocr=ocr and e=e and cr=cr, OF nougat]
        Cons.prems(3) by (simp add: map_of_dict_set)
  next
    case False
    with Cons.prems(1) obtain x where "run_parser registry ocr st name cr = Inr (dict_set name x cr)"
      using run_parser_other [of name registry ocr st cr] by auto
    moreover from Cons.prems(2) have "name \<noteq> ''OCR Fallback''" by auto
    ultimately show ?thesis using False Cons.prems(3) by (simp add: map_of_dict_set)
  qed
  then obtain cr' where step: "run_parser registry ocr st name cr = Inr cr'"
    and inv: "map_of cr' ''Nougat'' = Some (failed_result ''Nougat'' e)
                \<and> map_of cr' ''OCR Fallback'' = None" by blast
  from Cons.prems have "set names \<subseteq> set (map fst registry)" "''OCR Fallback'' \<notin> set names"
    by auto
  from Cons.IH [OF this inv] step show ?case by simp
qed

lemma run_parsers_nougat_raise:
  assumes nougat: "map_of registry ''Nougat'' = Some nf"
    "nf (build_params st ''Nougat'') = Inr r" "truthy (error r)"
    "''OCR (Tesseract)'' \<in> set (map fst registry)" "ocr (ocr_params st) = Inl e"
  shows "set names \<subseteq> set (map fst registry) \<Longrightarrow> ''OCR Fallback'' \<notin> set names \<Longrightarrow>
         ''Nougat'' \<in> set names \<Longrightarrow> map_of cr ''OCR Fallback'' = None \<Longrightarrow>
         \<exists>rs. run_parsers registry ocr st names cr = Inr rs
              \<and> map_of rs ''Nougat'' = Some (failed_result ''Nougat'' e)
              \<and> map_of rs ''OCR Fallback'' = None"
proof (induction names arbitrary: cr)
  case Nil
  then show ?case by simp
next
  case (Cons name names)
  from Cons.prems have rest: "set names \<subseteq> set (map fst registry)" "''OCR Fallback'' \<notin> set names"
    by auto
  show ?case
  proof (cases "name = ''Nougat''")
    case True
    let ?cr' = "dict_set ''Nougat'' (failed_result ''Nougat'' e) (dict_set ''Nougat'' r cr)"
    have step: "run_parser registry ocr st name cr = Inr ?cr'"
      using True run_parser_nougat_raise [where registry=registry and nf=nf and st=st and r=r and ocr=ocr and e=e and cr=cr, OF nougat] by simp
    have "map_of ?cr' ''Nougat'' = Some (failed_result ''Nougat'' e)
            \<and> map_of ?cr' ''OCR Fallback'' = None"
      using Cons.prems(4) by (simp add: map_of_dict_set)
    from run_parsers_keep_failure
           [where registry=registry and nf=nf and st=st and r=r and ocr=ocr and e=e,
            OF nougat rest this]
         step show ?thesis by simp
  next
    case False
    with Cons.prems have mem: "''Nougat'' \<in> set names" by simp
    from Cons.prems(1) False obtain x where
      step: "run_parser registry ocr st name cr = Inr (dict_set name x cr)"
      using run_parser_other [of name registry ocr st cr] by auto
    from Cons.prems(2) have "name \<noteq> ''OCR Fallback''" by auto
    with Cons.prems(4) have "map_of (dict_set name x cr) ''OCR Fallback'' = None"
      by (simp add: map_of_dict_set)
    from Cons.IH [OF rest mem this] step show ?thesis by simp
  qed
qed

lemma call_parse_ocr_fallback:
  "call_parse_ocr w (ocr_params st)
     = parse_ocr (fitz_open w) (selected_pdf_path st) (ocr_lang st) (page_range st) (ocr_dpi st)"
  by (simp add: call_parse_ocr_def ocr_params_def common_params_def dict_get_def)

lemma parse_ocr_raises:
  assumes "parse_ocr fo path lng range_opt dpi = Inl e"
  shows "e = is_open_missing \<and> (\<exists>doc. fo path = Inr doc)"
  using assms
  by (auto simp: parse_ocr_def Let_def split: sum.splits ocr_stop.splits)

lemma nougat_fallback_when_ocr_returns:
  assumes "set selected \<subseteq> set (map fst (PARSER_OPTIONS w))"
    and "''Nougat'' \<in> set selected"
    and "call_parse_nougat w (build_params st ''Nougat'') = Inr r"
    and "truthy (error r)"
    and "parse_ocr (fitz_open w) (selected_pdf_path st) (ocr_lang st) (page_range st) (ocr_dpi st)
           = Inr fb"
  shows "\<exists>rs. workbench_run w st selected = Inr rs
           \<and> map_of rs ''Nougat'' = Some r
           \<and> map_of rs ''OCR Fallback'' = Some fb"
proof -
  have reg: "map_of (PARSER_OPTIONS w) ''Nougat'' = Some (call_parse_nougat w)"
    by (simp add: PARSER_OPTIONS_def)
  have ocr: "''OCR (Tesseract)'' \<in> set (map fst (PARSER_OPTIONS w))"
    by (simp add: PARSER_OPTIONS_def)
  have nofb: "''OCR Fallback'' \<notin> set (map fst (PARSER_OPTIONS w))"
    by (simp add: PARSER_OPTIONS_def)
  with assms(1) have sel: "''OCR Fallback'' \<notin> set selected" by blast
  have call: "call_parse_ocr w (ocr_params st) = Inr fb"
    using assms(5) by (simp add: call_parse_ocr_fallback)
  from run_parsers_nougat_fallback
    [where registry="PARSER_OPTIONS w" and nf="call_parse_nougat w" and st=st and r=r
       and ocr="call_parse_ocr w" and cr="[]" and fb=fb,
     OF reg assms(3) assms(4) ocr call assms(1) sel assms(2)]
  show ?thesis by (simp add: workbench_run_def parse_button_def)
qed

lemma nougat_fallback_when_ocr_raises:
  assumes "set selected \<subseteq> set (map fst (PARSER_OPTIONS w))"
    and "''Nougat'' \<in> set selected"
    and "call_parse_nougat w (build_params st ''Nougat'') = Inr r"
    and "truthy (error r)"
    and "parse_ocr (fitz_open w) (selected_pdf_path st) (ocr_lang st) (page_range st) (ocr_dpi st)
           = Inl e"
  shows "\<exists>rs. workbench_run w st selected = Inr rs
           \<and> map_of rs ''Nougat'' = Some (failed_result ''Nougat'' e)
           \<and> map_of rs ''OCR Fallback'' = None"
proof -
  have reg: "map_of (PARSER_OPTIONS w) ''Nougat'' = Some (call_parse_nougat w)"
    by (simp add: PARSER_OPTIONS_def)
  have ocr: "''OCR (Tesseract)'' \<in> set (map fst (PARSER_OPTIONS w))"
    by (simp add: PARSER_OPTIONS_def)
  have nofb: "''OCR Fallback'' \<notin> set (map fst (PARSER_OPTIONS w))"
    by (simp add: PARSER_OPTIONS_def)
  with assms(1) have sel: "''OCR Fallback'' \<notin> set selected" by blast
  have call: "call_parse_ocr w (ocr_params st) = Inl e"
    using assms(5) by (simp add: call_parse_ocr_fallback)
  have empty: "map_of ([] :: result_set) ''OCR Fallback'' = None" by simp
  from run_parsers_nougat_raise
    [where registry="PARSER_OPTIONS w" and nf="call_parse_nougat w" and st=st and r=r
       and ocr="call_parse_ocr w" and cr="[]" and e=e,
     OF reg assms(3) assms(4) ocr call assms(1) sel assms(2) empty]
  show ?thesis by (simp add: workbench_run_def parse_button_def)
qed

text \<open>
  C4. Whenever the document-to-markup extractor (Nougat) is among the selected back
  ends and its result has a non-empty error, the run ends with a result set, the OCR
  extractor is registered, the key \<open>OCR Fallback\<close> is not the name of any registered
  back end, and the OCR extractor is called for the same document path and page range
  with the OCR language and DPI of the controls. When that call returns, the result set
  holds the failed Nougat result under the key \<open>Nougat\<close> and what the call returned
  under the key \<open>OCR Fallback\<close>. When that call raises, which it does whenever a page
  cannot be loaded or rendered after the document was opened, the result set holds no
  entry under \<open>OCR Fallback\<close>, and the entry under \<open>Nougat\<close> is no longer the result
  Nougat returned but the failure entry made from the exception of the OCR call.
\<close>

theorem nougat_failure_ocr_fallback:
  assumes "set selected \<subseteq> set (map fst (PARSER_OPTIONS w))"
    and "''Nougat'' \<in> set selected"
    and "call_parse_nougat w (build_params st ''Nougat'') = Inr r"
    and "truthy (error r)"
  shows "\<exists>rs. workbench_run w st selected = Inr rs
           \<and> (case parse_ocr (fitz_open w) (selected_pdf_path st) (ocr_lang st)
                      (page_range st) (ocr_dpi st) of
                Inr fb \<Rightarrow> map_of rs ''Nougat'' = Some r
                          \<and> map_of rs ''OCR Fallback'' = Some fb
              | Inl e \<Rightarrow> e = is_open_missing
                          \<and> map_of rs ''Nougat'' = Some (failed_result ''Nougat'' e)
                          \<and> map_of rs ''OCR Fallback'' = None)
           \<and> ''OCR Fallback'' \<notin> set (map fst (PARSER_OPTIONS w))
           \<and> ''OCR (Tesseract)'' \<in> set (map fst (PARSER_OPTIONS w))"
proof -
  have ocr: "''OCR (Tesseract)'' \<in> set (map fst (PARSER_OPTIONS w))"
    by (simp add: PARSER_OPTIONS_def)
  have nofb: "''OCR Fallback'' \<notin> set (map fst (PARSER_OPTIONS w))"
    by (simp add: PARSER_OPTIONS_def)
  show ?thesis
  proof (cases "parse_ocr (fitz_open w) (selected_pdf_path st) (ocr_lang st)
                  (page_range st) (ocr_dpi st)")
    case (Inl e)
    from parse_ocr_raises [OF Inl] have "e = is_open_missing" by simp
    with nougat_fallback_when_ocr_raises [OF assms Inl] Inl ocr nofb
    show ?thesis by auto
  next
    case (Inr fb)
    with nougat_fallback_when_ocr_returns [OF assms Inr] ocr nofb
    show ?thesis by auto
  qed
qed

text \<open>
  C5. For a run over two selected back ends \<open>A\<close> and \<open>B\<close>, in either order, where
  the call of \<open>A\<close> raises and the call of \<open>B\<close> returns a result without error, the
  result set holds an entry for \<open>A\<close> whose error is set and names \<open>A\<close>, and the
  entry for \<open>B\<close> is the result \<open>B\<close> returned.
\<close>

theorem one_failure_keeps_other_result:
  assumes "map_of registry A = Some fa" and "map_of registry B = Some fb" and "A \<noteq> B"
    and "fa (build_params st A) = Inl e"
    and "fb (build_params st B) = Inr rb" and "\<not> truthy (error rb)"
  shows "parse_button registry ocr st [A, B] = Inr [(A, failed_result A e), (B, rb)]
         \<and> parse_button registry ocr st [B, A] = Inr [(B, rb), (A, failed_result A e)]
         \<and> error (failed_result A e)
             = Some (''Failed to execute parser '' @ [CHR 0x27] @ A @ [CHR 0x27] @ '': '' @ e)
         \<and> truthy (error (failed_result A e))"
  using assms
  by (simp add: parse_button_def run_parser_def Let_def dict_set_def failed_result_def
        truthy_def)


lemma nougat_fallback_example:
  "workbench_run
      \<lparr>fitz_open = (\<lambda>p. Inr \<lparr>doc_metadata = [], doc_pages =
             [\<lparr>get_text = Inr ''hello'', image_to_string = (\<lambda>d l. Recognised ''hello'')\<rparr>]\<rparr>),
         pdfplumber_open = (\<lambda>p. Inl ''not used''),
         run_nougat = (\<lambda>c t. CommandNotFound), output_dir = ''temp_nougat_output_0'',
         open_rb = (\<lambda>p. Inr [''page'']), requests_post = (\<lambda>u f. ConnectionError)\<rparr>
      \<lparr>selected_pdf_path = ''PDF/a.pdf'', page_range = None, ocr_lang = ''eng'', ocr_dpi = 300,
         grobid_url = ''http://localhost:8070'', nougat_timeout = 1800\<rparr>
      [''Nougat'', ''PyMuPDF'']
     = Inr [(''Nougat'', (empty_result\<lparr>markdown := Some [], latex := Some [],
            error := Some (''Nougat Error: '' @ [CHR 0x27] @ ''nougat'' @ [CHR 0x27] @ '' command not found. Is Nougat installed and in your PATH?'')\<rparr>)),
            (''OCR Fallback'', empty_result\<lparr>text_field := Some ''hello'', error := None\<rparr>),
            (''PyMuPDF'', empty_result\<lparr>text_field := Some ''hello'', metadata := Some [], error := None\<rparr>)]"
  by (simp add: workbench_run_def parse_button_def run_parser_def PARSER_OPTIONS_def
        build_params_def common_params_def ocr_params_def dict_get_def dict_set_def
        call_parse_nougat_def parse_nougat_def call_parse_ocr_def parse_ocr_def
        ocr_pages_to_process_def call_parse_pymupdf_def parse_pymupdf_def
        pymupdf_pages_to_process_def page_count_def load_page_def py_range_def
        upto.simps truthy_def empty_result_def)

theorem nougat_failure_ocr_fallback_witness:
  "workbench_run
      \<lparr>fitz_open = (\<lambda>p. Inr \<lparr>doc_metadata = [], doc_pages =
             [\<lparr>get_text = Inr ''hello'',
               image_to_string = (\<lambda>d l. RenderException ''cannot render page'')\<rparr>]\<rparr>),
         pdfplumber_open = (\<lambda>p. Inl ''not used''),
         run_nougat = (\<lambda>c t. CommandNotFound), output_dir = ''temp_nougat_output_0'',
         open_rb = (\<lambda>p. Inr [''page'']), requests_post = (\<lambda>u f. ConnectionError)\<rparr>
      \<lparr>selected_pdf_path = ''PDF/a.pdf'', page_range = None, ocr_lang = ''eng'', ocr_dpi = 300,
         grobid_url = ''http://localhost:8070'', nougat_timeout = 1800\<rparr>
      [''Nougat'', ''PyMuPDF'']
     = Inr [(''Nougat'', empty_result\<lparr>error := Some (''Failed to execute parser ''
               @ [CHR 0x27] @ ''Nougat'' @ [CHR 0x27] @ '': '' @ [CHR 0x27] @ ''Document''
               @ [CHR 0x27] @ '' object has no attribute '' @ [CHR 0x27] @ ''is_open''
               @ [CHR 0x27])\<rparr>),
            (''PyMuPDF'', empty_result\<lparr>text_field := Some ''hello'', metadata := Some [], error := None\<rparr>)]"
proof -
  let ?w = "\<lparr>fitz_open = (\<lambda>p. Inr \<lparr>doc_metadata = [], doc_pages =
             [\<lparr>get_text = Inr ''hello'',
               image_to_string = (\<lambda>d l. RenderException ''cannot render page'')\<rparr>]\<rparr>),
         pdfplumber_open = (\<lambda>p. Inl ''not used''),
         run_nougat = (\<lambda>c t. CommandNotFound), output_dir = ''temp_nougat_output_0'',
         open_rb = (\<lambda>p. Inr [''page'']), requests_post = (\<lambda>u f. ConnectionError)\<rparr>"
  let ?st = "\<lparr>selected_pdf_path = ''PDF/a.pdf'', page_range = None, ocr_lang = ''eng'', ocr_dpi = 300,
         grobid_url = ''http://localhost:8070'', nougat_timeout = 1800\<rparr>"
  let ?r = "(empty_result\<lparr>markdown := Some [], latex := Some [],
            error := Some (''Nougat Error: '' @ [CHR 0x27] @ ''nougat'' @ [CHR 0x27] @ '' command not found. Is Nougat installed and in your PATH?'')\<rparr>)"
  have sel: "set [''Nougat'', ''PyMuPDF''] \<subseteq> set (map fst (PARSER_OPTIONS ?w))"
    by (simp add: PARSER_OPTIONS_def)
  have mem: "''Nougat'' \<in> set [''Nougat'', ''PyMuPDF'']" by simp
  have call: "call_parse_nougat ?w (build_params ?st ''Nougat'') = Inr ?r"
    by (simp add: call_parse_nougat_def build_params_def common_params_def parse_nougat_def
          dict_get_def)
  have err: "truthy (error ?r)" by (simp add: truthy_def)
  from nougat_failure_ocr_fallback [OF sel mem call err]
  obtain rs where "workbench_run ?w ?st [''Nougat'', ''PyMuPDF''] = Inr rs" by blast
  then show ?thesis
    by (simp add: workbench_run_def parse_button_def run_parser_def PARSER_OPTIONS_def
          build_params_def common_params_def ocr_params_def dict_get_def dict_set_def
          call_parse_nougat_def parse_nougat_def call_parse_ocr_def parse_ocr_def
          ocr_pages_to_process_def call_parse_pymupdf_def parse_pymupdf_def
          pymupdf_pages_to_process_def page_count_def load_page_def py_range_def
          upto.simps truthy_def empty_result_def failed_result_def is_open_missing_def)
qed

theorem one_failure_keeps_other_result_witness:
  "parse_button
      (PARSER_OPTIONS
        \<lparr>fitz_open = (\<lambda>p. Inr \<lparr>doc_metadata = [], doc_pages =
             [\<lparr>get_text = Inr ''hello'', image_to_string = (\<lambda>d l. Recognised ''hello'')\<rparr>]\<rparr>),
         pdfplumber_open = (\<lambda>p. Inl ''not used''),
         run_nougat = (\<lambda>c t. MakedirsFailed ''Permission denied''), output_dir = ''temp_nougat_output_0'',
         open_rb = (\<lambda>p. Inr [''page'']), requests_post = (\<lambda>u f. ConnectionError)\<rparr>)
      (call_parse_ocr
        \<lparr>fitz_open = (\<lambda>p. Inr \<lparr>doc_metadata = [], doc_pages =
             [\<lparr>get_text = Inr ''hello'', image_to_string = (\<lambda>d l. Recognised ''hello'')\<rparr>]\<rparr>),
         pdfplumber_open = (\<lambda>p. Inl ''not used''),
         run_nougat = (\<lambda>c t. MakedirsFailed ''Permission denied''), output_dir = ''temp_nougat_output_0'',
         open_rb = (\<lambda>p. Inr [''page'']), requests_post = (\<lambda>u f. ConnectionError)\<rparr>)
      \<lparr>selected_pdf_path = ''PDF/a.pdf'', page_range = None, ocr_lang = ''eng'', ocr_dpi = 300,
         grobid_url = ''http://localhost:8070'', nougat_timeout = 1800\<rparr>
      [''Nougat'', ''PyMuPDF'']
     = Inr [(''Nougat'', failed_result ''Nougat'' ''Permission denied''),
            (''PyMuPDF'', empty_result\<lparr>text_field := Some ''hello'', metadata := Some [], error := None\<rparr>)]"
proof -
  let ?w = "\<lparr>fitz_open = (\<lambda>p. Inr \<lparr>doc_metadata = [], doc_pages =
             [\<lparr>get_text = Inr ''hello'', image_to_string = (\<lambda>d l. Recognised ''hello'')\<rparr>]\<rparr>),
         pdfplumber_open = (\<lambda>p. Inl ''not used''),
         run_nougat = (\<lambda>c t. MakedirsFailed ''Permission denied''), output_dir = ''temp_nougat_output_0'',
         open_rb = (\<lambda>p. Inr [''page'']), requests_post = (\<lambda>u f. ConnectionError)\<rparr>"
  let ?st = "\<lparr>selected_pdf_path = ''PDF/a.pdf'', page_range = None, ocr_lang = ''eng'', ocr_dpi = 300,
         grobid_url = ''http://localhost:8070'', nougat_timeout = 1800\<rparr>"
  let ?rb = "empty_result\<lparr>text_field := Some ''hello'', metadata := Some [], error := None\<rparr>"
  have a: "map_of (PARSER_OPTIONS ?w) ''Nougat'' = Some (call_parse_nougat ?w)"
    by (simp add: PARSER_OPTIONS_def)
  have b: "map_of (PARSER_OPTIONS ?w) ''PyMuPDF'' = Some (call_parse_pymupdf ?w)"
    by (simp add: PARSER_OPTIONS_def)
  have ab: "''Nougat'' \<noteq> ''PyMuPDF''" by simp
  have fa: "call_parse_nougat ?w (build_params ?st ''Nougat'') = Inl ''Permission denied''"
    by (simp add: call_parse_nougat_def build_params_def common_params_def parse_nougat_def
          dict_get_def)
  have fb: "call_parse_pymupdf ?w (build_params ?st ''PyMuPDF'') = Inr ?rb"
    by (simp add: call_parse_pymupdf_def build_params_def common_params_def parse_pymupdf_def
          pymupdf_pages_to_process_def page_count_def load_page_def py_range_def upto.simps
          dict_get_def empty_result_def)
  have ok: "\<not> truthy (error ?rb)" by (simp add: truthy_def)
  from one_failure_keeps_other_result [OF a b ab fa fb ok, of "call_parse_ocr ?w"]
  show ?thesis by simp
qed

section \<open>Properties of the JSON export\<close>

subsection \<open>Numbers\<close>

lemma digit_char_props:
  assumes "d < 10"
  shows "is_digit (digit_char d)" and "(of_char (digit_char d) :: nat) - 48 = d"
    and "(digit_char d = CHR ''0'') = (d = 0)"
proof -
  from assms have "d \<in> {0, 1, 2, 3, 4, 5, 6, 7, 8, 9}" by auto
  then show "is_digit (digit_char d)" and "(of_char (digit_char d) :: nat) - 48 = d"
    and "(digit_char d = CHR ''0'') = (d = 0)"
    by (auto simp: digit_char_def is_digit_def)
qed

lemma str_nat_digits: "list_all is_digit (str_nat n)"
proof (induction n rule: str_nat.induct)
  case (1 n)
  show ?case
  proof (cases "n < 10")
    case True
    then show ?thesis by (subst str_nat.simps) (simp add: digit_char_props)
  next
    case False
    with 1 show ?thesis by (subst str_nat.simps) (simp add: digit_char_props)
  qed
qed

lemma str_nat_value: "digits_value (str_nat n) = n"
proof (induction n rule: str_nat.induct)
  case (1 n)
  show ?case
  proof (cases "n < 10")
    case True
    then show ?thesis by (subst str_nat.simps) (simp add: digit_char_props digits_value_def)
  next
    case False
    with 1 show ?thesis by (subst str_nat.simps) (simp add: digit_char_props digits_value_def)
  qed
qed

lemma str_nat_first:
  "\<exists>c cs. str_nat n = c # cs \<and> is_digit c \<and> ((c = CHR ''0'') = (n = 0)) \<and> (n = 0 \<longrightarrow> cs = [])"
proof (induction n rule: str_nat.induct)
  case (1 n)
  show ?case
  proof (cases "n < 10")
    case True
    then show ?thesis by (subst str_nat.simps) (simp add: digit_char_props)
  next
    case False
    then have "n div 10 \<noteq> 0" by simp
    with 1 False obtain c cs where "str_nat (n div 10) = c # cs" "is_digit c" "c \<noteq> CHR ''0''"
      by auto
    with False show ?thesis by (subst str_nat.simps) simp
  qed
qed

lemma str_int_first:
  "\<exists>c cs. str_int i = c # cs \<and> (is_digit c \<or> c = CHR ''-'')"
  using str_nat_first [of "nat i"] str_nat_first [of "nat (- i)"] by (cases "i < 0") (auto simp: str_int_def)

lemma while_stop:
  "(case r of [] \<Rightarrow> True | c # cs \<Rightarrow> \<not> P c) \<Longrightarrow>
   takeWhile P (xs @ r) = takeWhile P xs \<and> dropWhile P (xs @ r) = dropWhile P xs @ r"
  by (induction xs) (auto split: list.splits)

lemma while_all: "list_all P xs \<Longrightarrow> takeWhile P xs = xs \<and> dropWhile P xs = []"
  by (induction xs) auto

lemma value_end_cases:
  assumes "value_end t"
  obtains "t = []" | c cs where "t = c # cs" "c = CHR '','' \<or> c = CHR 0x0A"
  using assms by (auto simp: value_end_def split: list.splits)

lemma value_end_no_digit: "value_end t \<Longrightarrow> (case t of [] \<Rightarrow> True | c # cs \<Rightarrow> \<not> is_digit c)"
  by (auto simp: value_end_def is_digit_def split: list.splits)

lemma match_integer_append:
  assumes "value_end t" and "match_integer s = Some (i, r)"
  shows "match_integer (s @ t) = Some (i, r @ t)"
proof -
  note st = while_stop [OF value_end_no_digit [OF assms(1)]]
  from assms(2) obtain c cs where s: "s = c # cs"
    by (cases s) (auto simp: match_integer_def Let_def startswith_def)
  show ?thesis
  proof (cases "c = CHR ''-''")
    case True
    with assms(2) s obtain d ds where cs: "cs = d # ds"
      by (cases cs) (auto simp: match_integer_def Let_def startswith_def)
    with True s assms(2) show ?thesis
      by (auto simp: match_integer_def Let_def startswith_def st split: if_splits)
  next
    case False
    with s assms(2) show ?thesis
      by (auto simp: match_integer_def Let_def startswith_def st split: if_splits)
  qed
qed

lemma match_frac_append:
  assumes "value_end t" and "match_frac r = (f, r1)"
  shows "match_frac (r @ t) = (f, r1 @ t)"
proof -
  note st = while_stop [OF value_end_no_digit [OF assms(1)]]
  from assms(1) have t: "case t of [] \<Rightarrow> True | c # cs \<Rightarrow> c \<noteq> CHR ''.'' \<and> \<not> is_digit c"
    by (auto simp: value_end_def is_digit_def split: list.splits)
  show ?thesis
  proof (cases r)
    case Nil
    with assms(2) t show ?thesis by (auto simp: match_frac_def split: list.splits)
  next
    case (Cons c cs)
    show ?thesis
    proof (cases cs)
      case Nil
      with Cons assms(2) t show ?thesis by (auto simp: match_frac_def split: list.splits)
    next
      case (Cons d ds)
      with \<open>r = c # cs\<close> assms(2) show ?thesis
        by (auto simp: match_frac_def st split: if_splits)
    qed
  qed
qed

lemma match_exp_append:
  assumes "value_end t" and "match_exp r = (e, r2)"
  shows "match_exp (r @ t) = (e, r2 @ t)"
proof -
  note st = while_stop [OF value_end_no_digit [OF assms(1)]]
  from assms(1) have t: "case t of [] \<Rightarrow> True
      | c # cs \<Rightarrow> c \<noteq> CHR ''e'' \<and> c \<noteq> CHR ''E'' \<and> c \<noteq> CHR ''+'' \<and> c \<noteq> CHR ''-'' \<and> \<not> is_digit c"
    by (auto simp: value_end_def is_digit_def split: list.splits)
  show ?thesis
  proof (cases r)
    case Nil
    with assms(2) t show ?thesis by (auto simp: match_exp_def split: list.splits)
  next
    case (Cons c cs)
    show ?thesis
    proof (cases cs)
      case Nil
      with Cons assms(2) t show ?thesis
        by (auto simp: match_exp_def startswith_def Let_def split: list.splits if_splits)
    next
      case (Cons d ds)
      with \<open>r = c # cs\<close> assms(2) t show ?thesis
        by (auto simp: match_exp_def startswith_def Let_def st split: if_splits list.splits)
    qed
  qed
qed

lemma match_integer_split:
  assumes "match_integer s = Some (i, r)"
  shows "s = i @ r" and "\<exists>c cs. s = c # cs \<and> (is_digit c \<or> c = CHR ''-'')"
proof -
  from assms obtain c cs where s: "s = c # cs"
    by (cases s) (auto simp: match_integer_def Let_def startswith_def)
  show "s = i @ r"
  proof (cases "c = CHR ''-''")
    case True
    with assms s obtain d ds where cs: "cs = d # ds"
      by (cases cs) (auto simp: match_integer_def Let_def startswith_def)
    with True s assms show ?thesis
      by (auto simp: match_integer_def Let_def startswith_def split: if_splits)
  next
    case False
    with s assms show ?thesis
      by (auto simp: match_integer_def Let_def startswith_def split: if_splits)
  qed
  from assms s show "\<exists>c cs. s = c # cs \<and> (is_digit c \<or> c = CHR ''-'')"
    by (auto simp: match_integer_def Let_def startswith_def is_digit_def split: if_splits list.splits)
qed

lemma match_frac_split: "match_frac r = (f, r1) \<Longrightarrow> r = f @ r1"
  by (auto simp: match_frac_def split: list.splits if_splits)

lemma match_exp_split: "match_exp r = (e, r2) \<Longrightarrow> r = e @ r2"
proof (cases r)
  case Nil
  assume "match_exp r = (e, r2)"
  with Nil show ?thesis by (simp add: match_exp_def)
next
  case (Cons c cs)
  assume a: "match_exp r = (e, r2)"
  let ?sign = "if startswith cs ''+'' then ''+'' else if startswith cs ''-'' then ''-'' else []"
  have "cs = ?sign @ drop (length ?sign) cs"
    by (cases cs) (auto simp: startswith_def)
  moreover have "drop (length ?sign) cs
      = takeWhile is_digit (drop (length ?sign) cs) @ dropWhile is_digit (drop (length ?sign) cs)"
    by simp
  ultimately have "cs = ?sign @ takeWhile is_digit (drop (length ?sign) cs)
                       @ dropWhile is_digit (drop (length ?sign) cs)"
    by metis
  with a Cons show ?thesis
    by (auto simp: match_exp_def Let_def split: if_splits)
qed

lemma match_at_value_end:
  assumes "value_end r"
  shows "match_frac r = ([], r)" and "match_exp r = ([], r)"
  using assms
  by (auto simp: value_end_def match_frac_def match_exp_def is_digit_def split: list.splits)

lemma match_number_float:
  assumes "is_float_repr s" and "value_end t"
  shows "match_number py (s @ t) = Some (PFloat (float_of_str py s), t)"
proof -
  from assms(1) obtain i r f r1 e where
    m: "match_integer s = Some (i, r)" "match_frac r = (f, r1)" "match_exp r1 = (e, [])"
    and fe: "f \<noteq> [] \<or> e \<noteq> []"
    by (auto simp: is_float_repr_def split: option.splits prod.splits)
  have "s = i @ f @ e"
    using match_integer_split(1) [OF m(1)] match_frac_split [OF m(2)] match_exp_split [OF m(3)]
    by simp
  moreover have "match_integer (s @ t) = Some (i, r @ t)"
    "match_frac (r @ t) = (f, r1 @ t)" "match_exp (r1 @ t) = (e, [] @ t)"
    using match_integer_append [OF assms(2) m(1)] match_frac_append [OF assms(2) m(2)]
      match_exp_append [OF assms(2) m(3)] by simp_all
  ultimately show ?thesis using fe by (simp add: match_number_def)
qed

lemma match_integer_str_int: "match_integer (str_int i) = Some (str_int i, [])"
proof -
  have key: "match_integer (sign @ str_nat n) = Some (sign @ str_nat n, [])"
    if "sign = [] \<or> sign = ''-''" for sign n
  proof -
    obtain c cs where f: "str_nat n = c # cs" "is_digit c" "(c = CHR ''0'') = (n = 0)" "n = 0 \<longrightarrow> cs = []"
      using str_nat_first by blast
    then have nm: "c \<noteq> CHR ''-''" by (auto simp: is_digit_def)
    have "list_all is_digit cs" using str_nat_digits [of n] f by simp
    then have w: "takeWhile is_digit cs = cs" "dropWhile is_digit cs = []"
      using while_all by blast+
    from that show ?thesis
    proof
      assume "sign = []"
      with f nm w show ?thesis by (auto simp: match_integer_def Let_def startswith_def)
    next
      assume "sign = ''-''"
      with f nm w show ?thesis by (auto simp: match_integer_def Let_def startswith_def)
    qed
  qed
  show ?thesis
    using key [of "[]" "nat i"] key [of "''-''" "nat (- i)"] by (simp add: str_int_def)
qed

lemma int_of_str_str_int:
  assumes "int_repr py i = Some t"
  shows "t = str_int i" and "int_of_str py t = Some i"
proof -
  from assms show t: "t = str_int i" by (simp add: int_repr_def split: if_splits)
  from assms have lim: "\<not> (0 < int_max_str_digits py
      \<and> int_max_str_digits py < length (str_nat (nat \<bar>i\<bar>)))"
    by (simp add: int_repr_def split: if_splits)
  show "int_of_str py t = Some i"
  proof (cases "i < 0")
    case True
    then have "nat \<bar>i\<bar> = nat (- i)" by simp
    with True lim t show ?thesis
      by (auto simp: int_of_str_def Let_def str_int_def startswith_def str_nat_value)
  next
    case False
    obtain c cs where f: "str_nat (nat i) = c # cs" "is_digit c"
      using str_nat_first by blast
    then have "c \<noteq> CHR ''-''" by (auto simp: is_digit_def)
    moreover from False have "nat \<bar>i\<bar> = nat i" by simp
    ultimately show ?thesis using False lim t f str_nat_value [of "nat i"]
      by (auto simp: int_of_str_def Let_def str_int_def startswith_def)
  qed
qed

lemma match_number_int:
  assumes "int_repr py i = Some t" and "value_end r"
  shows "match_number py (t @ r) = Some (PInt i, r)"
proof -
  have t: "t = str_int i" and v: "int_of_str py t = Some i"
    using int_of_str_str_int [OF assms(1)] by simp_all
  have "match_integer (t @ r) = Some (t, [] @ r)"
    using match_integer_append [OF assms(2) match_integer_str_int [of i]] t by simp
  with v match_at_value_end [OF assms(2)] show ?thesis by (simp add: match_number_def)
qed

subsection \<open>Strings\<close>

lemma hex_char_val:
  assumes "d < 16"
  shows "hex_val (hex_char d) = Some d"
proof -
  from assms have "d = 0 \<or> d = 1 \<or> d = 2 \<or> d = 3 \<or> d = 4 \<or> d = 5 \<or> d = 6 \<or> d = 7
      \<or> d = 8 \<or> d = 9 \<or> d = 10 \<or> d = 11 \<or> d = 12 \<or> d = 13 \<or> d = 14 \<or> d = 15"
    by presburger
  then show ?thesis by (elim disjE) (simp_all add: hex_char_def hex_val_def)
qed

lemma hex4_control:
  assumes "n < 32"
  shows "hex4 (CHR ''0'') (CHR ''0'') (hex_char (n div 16)) (hex_char (n mod 16)) = Some n"
proof -
  have "n div 16 < 16" "n mod 16 < 16" using assms by simp_all
  then have "hex_val (hex_char (n div 16)) = Some (n div 16)"
    "hex_val (hex_char (n mod 16)) = Some (n mod 16)" by (simp_all add: hex_char_val)
  moreover have "hex_val (CHR ''0'') = Some 0" by (simp add: hex_val_def)
  ultimately show ?thesis by (simp add: hex4_def)
qed

lemma scanstring_escape_char:
  "scanstring acc (escape_char c @ t) = scanstring (acc @ [c]) t"
proof -
  consider (quote) "c = CHR 0x22" | (bslash) "c = CHR 0x5C" | (nl) "c = CHR 0x0A"
    | (cr) "c = CHR 0x0D" | (tab) "c = CHR 0x09" | (bs) "c = CHR 0x08" | (ff) "c = CHR 0x0C"
    | (ctl) "c \<notin> {CHR 0x22, CHR 0x5C, CHR 0x0A, CHR 0x0D, CHR 0x09, CHR 0x08, CHR 0x0C}"
        "(of_char c :: nat) < 32"
    | (plain) "c \<notin> {CHR 0x22, CHR 0x5C, CHR 0x0A, CHR 0x0D, CHR 0x09, CHR 0x08, CHR 0x0C}"
        "\<not> (of_char c :: nat) < 32"
    by blast
  then show ?thesis
  proof cases
    case ctl
    have "utf8 (of_char c) = [c]" using ctl(2) by (simp add: utf8_def)
    with ctl hex4_control [OF ctl(2)] show ?thesis
      by (simp add: escape_char_def)
  next
    case plain
    then show ?thesis by (simp add: escape_char_def)
  qed (simp_all add: escape_char_def unescape_def)
qed

lemma scanstring_escaped:
  "scanstring acc (concat (map escape_char s) @ CHR 0x22 # r) = Some (acc @ s, r)"
proof (induction s arbitrary: acc)
  case Nil
  show ?case by simp
next
  case (Cons c s)
  have "scanstring acc (concat (map escape_char (c # s)) @ CHR 0x22 # r)
          = scanstring acc (escape_char c @ (concat (map escape_char s) @ CHR 0x22 # r))"
    by simp
  also have "\<dots> = scanstring (acc @ [c]) (concat (map escape_char s) @ CHR 0x22 # r)"
    by (rule scanstring_escape_char)
  also have "\<dots> = Some ((acc @ [c]) @ s, r)" by (rule Cons.IH)
  finally show ?case by simp
qed

lemma scanstring_encoded:
  "\<exists>t. encode_basestring s @ r = CHR 0x22 # t \<and> scanstring [] t = Some (s, r)"
  using scanstring_escaped [of "[]" s r] by (simp add: encode_basestring_def)

subsection \<open>White space and the start of a value\<close>

lemma skip_ws_newline_indent:
  "value_start s \<Longrightarrow> skip_ws (newline_indent k @ s) = s"
  by (cases s) (auto simp: skip_ws_def newline_indent_def value_start_def is_ws_def
      dropWhile_append3)

lemma skip_ws_start: "\<not> is_ws c \<Longrightarrow> skip_ws (c # s) = c # s"
  by (simp add: skip_ws_def)

lemma skip_ws_space: "value_start s \<Longrightarrow> skip_ws (CHR '' '' # s) = s"
  by (cases s) (auto simp: skip_ws_def value_start_def is_ws_def)

lemma bracket_text:
  assumes "bracket py lvl a b items = Some t"
  shows "items = [] \<and> t = [a, b]
         \<or> items \<noteq> [] \<and> lvl < encoder_depth py
           \<and> (\<exists>ts. those items = Some ts
                 \<and> t = a # newline_indent (lvl + 1) @ join ('','' @ newline_indent (lvl + 1)) ts
                         @ newline_indent lvl @ [b])"
  using assms by (auto simp: bracket_def split: if_splits option.splits)

lemma those_map:
  "those (map f xs) = Some ts \<longleftrightarrow> list_all2 (\<lambda>x t. f x = Some t) xs ts"
proof (induction xs arbitrary: ts)
  case Nil
  show ?case by auto
next
  case (Cons x xs)
  have "those (map f (x # xs)) = Some ts
          \<longleftrightarrow> (\<exists>a ts'. f x = Some a \<and> those (map f xs) = Some ts' \<and> ts = a # ts')"
    by (cases "f x"; cases "those (map f xs)") auto
  also have "\<dots> \<longleftrightarrow> (\<exists>a ts'. f x = Some a \<and> list_all2 (\<lambda>x t. f x = Some t) xs ts' \<and> ts = a # ts')"
    by (simp add: Cons.IH)
  also have "\<dots> \<longleftrightarrow> list_all2 (\<lambda>x t. f x = Some t) (x # xs) ts"
    by (auto simp: list_all2_Cons1)
  finally show ?case .
qed

lemma value_start_iterencode:
  assumes "iterencode py lvl v = Some t" and "repr_read_back py v"
  shows "value_start (t @ r)"
proof (cases v)
  case (PInt i)
  with assms have "t = str_int i" by (simp add: int_repr_def split: if_splits)
  moreover obtain c cs where "str_int i = c # cs" "is_digit c \<or> c = CHR ''-''"
    using str_int_first by blast
  ultimately show ?thesis by (auto simp: value_start_def is_ws_def is_digit_def)
next
  case (PFloat f)
  show ?thesis
  proof (cases f)
    case (Float s)
    with PFloat assms have fr: "is_float_repr s" and ts: "t = s" by (simp_all add: floatstr_def)
    from fr obtain i r0 where "match_integer s = Some (i, r0)"
      by (auto simp: is_float_repr_def split: option.splits)
    from match_integer_split(2) [OF this] ts
    obtain c cs where "t = c # cs" "is_digit c \<or> c = CHR ''-''" by auto
    then show ?thesis by (auto simp: value_start_def is_ws_def is_digit_def)
  qed (use PFloat assms in \<open>auto simp: floatstr_def value_start_def is_ws_def\<close>)
next
  case (PList xs)
  with assms bracket_text [of py lvl "CHR ''[''" "CHR '']''" "map (iterencode py (lvl + 1)) xs" t]
  show ?thesis by (auto simp: value_start_def is_ws_def)
next
  case (PTuple xs)
  with assms bracket_text [of py lvl "CHR ''[''" "CHR '']''" "map (iterencode py (lvl + 1)) xs" t]
  show ?thesis by (auto simp: value_start_def is_ws_def)
next
  case (PDict kvs)
  with assms bracket_text [of py lvl "CHR ''{''" "CHR ''}''"
      "map (\<lambda>kv. member (key_str py (fst kv)) (iterencode py (lvl + 1) (snd kv))) kvs" t]
  show ?thesis by (auto simp: value_start_def is_ws_def)
qed (use assms in \<open>auto simp: value_start_def is_ws_def encode_basestring_def\<close>)

lemma value_start_member: "value_start (encode_basestring k @ r)"
  by (simp add: value_start_def is_ws_def encode_basestring_def)

lemma member_text:
  assumes "member k v = Some t"
  shows "\<exists>key vt. k = Some key \<and> v = Some vt \<and> t = encode_basestring key @ '': '' @ vt"
  using assms by (auto simp: member_def split: option.splits)

subsection \<open>Arrays and objects\<close>

lemma value_end_sep: "value_end (CHR '','' # s)" "value_end (newline_indent k @ s)"
  by (simp_all add: value_end_def newline_indent_def)

lemma skip_ws_closing:
  "c \<noteq> CHR '' '' \<Longrightarrow> \<not> is_ws c \<Longrightarrow> skip_ws (newline_indent lvl @ c # r) = c # r"
  by (simp add: skip_ws_def newline_indent_def is_ws_def dropWhile_append3)

lemma scan_array_elements:
  assumes IH: "\<And>x n t r. x \<in> set xs \<Longrightarrow> f x = Some t \<Longrightarrow> cost x \<le> n \<Longrightarrow> value_end r \<Longrightarrow>
                 scan_once py n l (t @ r) = Some (x, r)"
    and VS: "\<And>x t r. x \<in> set xs \<Longrightarrow> f x = Some t \<Longrightarrow> value_start (t @ r)"
  shows "xs \<noteq> [] \<Longrightarrow> list_all2 (\<lambda>x t. f x = Some t) xs ts \<Longrightarrow>
         sum_list (map (\<lambda>x. 1 + cost x) xs) \<le> n \<Longrightarrow>
         scan_array py n l (join ('','' @ newline_indent k) ts @ newline_indent lvl @ CHR '']'' # r) acc
           = Some (PList (acc @ xs), r)"
  using IH VS
proof (induction xs arbitrary: n acc ts)
  case Nil
  then show ?case by simp
next
  case (Cons x xs)
  from Cons.prems(2) obtain t ts' where ts: "ts = t # ts'" and t: "f x = Some t"
    and rest: "list_all2 (\<lambda>x t. f x = Some t) xs ts'"
    by (auto simp: list_all2_Cons1)
  from Cons.prems(3) obtain m where n: "n = Suc m" and m: "cost x + sum_list (map (\<lambda>x. 1 + cost x) xs) \<le> m"
    by (cases n) auto
  show ?case
  proof (cases xs)
    case Nil
    with rest have ts': "ts' = []" by simp
    have "scan_once py m l (t @ (newline_indent lvl @ CHR '']'' # r))
            = Some (x, newline_indent lvl @ CHR '']'' # r)"
      using m t by (intro Cons.prems(4)) (simp_all add: value_end_sep)
    moreover have "skip_ws (newline_indent lvl @ CHR '']'' # r) = CHR '']'' # r"
      by (simp add: skip_ws_closing is_ws_def)
    ultimately show ?thesis using Nil n ts ts' by simp
  next
    case (Cons y ys)
    with rest obtain u us where us: "ts' = u # us" and u: "f y = Some u"
      by (auto simp: list_all2_Cons1)
    let ?rest = "join ('','' @ newline_indent k) ts' @ newline_indent lvl @ CHR '']'' # r"
    have shape: "join ('','' @ newline_indent k) ts @ newline_indent lvl @ CHR '']'' # r
               = t @ (CHR '','' # newline_indent k @ ?rest)"
      using ts us by simp
    have one: "scan_once py m l (t @ (CHR '','' # newline_indent k @ ?rest))
            = Some (x, CHR '','' # newline_indent k @ ?rest)"
      using m t by (intro Cons.prems(4)) (simp_all add: value_end_sep)
    have "value_start ?rest"
      using Cons.prems(5) [of y u] Cons u us
      by (cases us) (simp_all add: value_start_def split: list.splits)
    then have sk: "skip_ws (newline_indent k @ ?rest) = ?rest"
      by (rule skip_ws_newline_indent)
    have "scan_array py m l ?rest (acc @ [x]) = Some (PList ((acc @ [x]) @ xs), r)"
    proof (rule Cons.IH [OF _ rest])
      show "xs \<noteq> []" using Cons by simp
      show "sum_list (map (\<lambda>x. 1 + cost x) xs) \<le> m" using m by simp
      show "\<And>x n t r. x \<in> set xs \<Longrightarrow> f x = Some t \<Longrightarrow> cost x \<le> n \<Longrightarrow> value_end r \<Longrightarrow>
              scan_once py n l (t @ r) = Some (x, r)"
        by (rule Cons.prems(4)) simp_all
      show "\<And>x t r. x \<in> set xs \<Longrightarrow> f x = Some t \<Longrightarrow> value_start (t @ r)"
        by (rule Cons.prems(5)) simp_all
    qed
    with one sk show ?thesis
      unfolding shape n by (simp add: skip_ws_start is_ws_def)
  qed
qed

lemma scan_object_members:
  assumes IH: "\<And>kv n t r. kv \<in> set kvs \<Longrightarrow> f (snd kv) = Some t \<Longrightarrow> cost (snd kv) \<le> n \<Longrightarrow>
                 value_end r \<Longrightarrow> scan_once py n l (t @ r) = Some (snd kv, r)"
    and VS: "\<And>kv t r. kv \<in> set kvs \<Longrightarrow> f (snd kv) = Some t \<Longrightarrow> value_start (t @ r)"
  shows "kvs \<noteq> [] \<Longrightarrow>
         list_all2 (\<lambda>kv t. member (g (fst kv)) (f (snd kv)) = Some t) kvs ts \<Longrightarrow>
         sum_list (map (\<lambda>kv. 1 + cost (snd kv)) kvs) \<le> n \<Longrightarrow>
         scan_object py n l (join ('','' @ newline_indent k) ts @ newline_indent lvl @ CHR ''}'' # r) acc
           = Some (dict_of_pairs (acc @ map (\<lambda>kv. (the (g (fst kv)), snd kv)) kvs), r)"
  using IH VS
proof (induction kvs arbitrary: n acc ts)
  case Nil
  then show ?case by simp
next
  case (Cons kv kvs)
  from Cons.prems(2) obtain t ts' where ts: "ts = t # ts'"
    and t: "member (g (fst kv)) (f (snd kv)) = Some t"
    and rest: "list_all2 (\<lambda>kv t. member (g (fst kv)) (f (snd kv)) = Some t) kvs ts'"
    by (auto simp: list_all2_Cons1)
  from member_text [OF t] obtain key vt where key: "g (fst kv) = Some key"
    and vt: "f (snd kv) = Some vt" and tt: "t = encode_basestring key @ '': '' @ vt"
    by blast
  from Cons.prems(3) obtain m where n: "n = Suc m"
    and m: "cost (snd kv) + sum_list (map (\<lambda>kv. 1 + cost (snd kv)) kvs) \<le> m"
    by (cases n) auto
  have member: "\<And>w. \<exists>u. t @ w = CHR 0x22 # u
      \<and> scanstring [] u = Some (key, CHR '':'' # CHR '' '' # vt @ w)"
    using scanstring_encoded [of key] by (simp add: tt)
  have vs: "\<And>w. skip_ws (CHR '' '' # vt @ w) = vt @ w"
    using Cons.prems(5) [of kv vt] vt by (intro skip_ws_space) simp
  show ?case
  proof (cases kvs)
    case Nil
    with rest have ts': "ts' = []" by simp
    let ?w = "newline_indent lvl @ CHR ''}'' # r"
    obtain u where u: "t @ ?w = CHR 0x22 # u"
      "scanstring [] u = Some (key, CHR '':'' # CHR '' '' # vt @ ?w)"
      using member by blast
    have "scan_once py m l (vt @ ?w) = Some (snd kv, ?w)"
      using m vt by (intro Cons.prems(4)) (simp_all add: value_end_sep)
    moreover have "skip_ws ?w = CHR ''}'' # r"
      by (simp add: skip_ws_closing is_ws_def)
    ultimately show ?thesis using Nil n u vs ts ts' key
      by (simp add: skip_ws_start is_ws_def)
  next
    case (Cons kv' kvs')
    with rest obtain u' us where us: "ts' = u' # us"
      and u': "member (g (fst kv')) (f (snd kv')) = Some u'"
      by (auto simp: list_all2_Cons1)
    let ?rest = "join ('','' @ newline_indent k) ts' @ newline_indent lvl @ CHR ''}'' # r"
    let ?w = "CHR '','' # newline_indent k @ ?rest"
    have shape: "join ('','' @ newline_indent k) ts @ newline_indent lvl @ CHR ''}'' # r
               = t @ ?w"
      using ts us by simp
    obtain u where u: "t @ ?w = CHR 0x22 # u"
      "scanstring [] u = Some (key, CHR '':'' # CHR '' '' # vt @ ?w)"
      using member by blast
    have one: "scan_once py m l (vt @ ?w) = Some (snd kv, ?w)"
      using m vt by (intro Cons.prems(4)) (simp_all add: value_end_sep)
    from member_text [OF u'] obtain key' where "u' = encode_basestring key' @ '': '' @ the (f (snd kv'))"
      by auto
    then have "value_start ?rest"
      using us value_start_member [of key']
      by (cases us) (simp_all add: value_start_def split: list.splits)
    then have sk: "skip_ws (newline_indent k @ ?rest) = ?rest"
      by (rule skip_ws_newline_indent)
    have "scan_object py m l ?rest (acc @ [(key, snd kv)])
            = Some (dict_of_pairs ((acc @ [(key, snd kv)])
                      @ map (\<lambda>kv. (the (g (fst kv)), snd kv)) kvs), r)"
    proof (rule Cons.IH [OF _ rest])
      show "kvs \<noteq> []" using Cons by simp
      show "sum_list (map (\<lambda>kv. 1 + cost (snd kv)) kvs) \<le> m" using m by simp
      show "\<And>kv n t r. kv \<in> set kvs \<Longrightarrow> f (snd kv) = Some t \<Longrightarrow> cost (snd kv) \<le> n \<Longrightarrow>
              value_end r \<Longrightarrow> scan_once py n l (t @ r) = Some (snd kv, r)"
        by (rule Cons.prems(4)) simp_all
      show "\<And>kv t r. kv \<in> set kvs \<Longrightarrow> f (snd kv) = Some t \<Longrightarrow> value_start (t @ r)"
        by (rule Cons.prems(5)) simp_all
    qed
    with one sk u vs key show ?thesis
      unfolding shape n by (simp add: skip_ws_start is_ws_def)
  qed
qed

subsection \<open>Reading back what the encoder wrote\<close>

lemma foldl_dict_set_distinct:
  "distinct (map fst (d @ ps)) \<Longrightarrow>
   foldl (\<lambda>d kv. dict_set (fst kv) (snd kv) d) d ps = d @ ps"
proof (induction ps arbitrary: d)
  case Nil
  show ?case by simp
next
  case (Cons kv ps)
  then have "fst kv \<notin> set (map fst d)" by auto
  then have "dict_set (fst kv) (snd kv) d = d @ [kv]" by (simp add: dict_set_def)
  moreover from Cons.prems have "distinct (map fst ((d @ [kv]) @ ps))" by simp
  ultimately show ?case using Cons.IH [of "d @ [kv]"] by simp
qed

lemma foldl_dict_set_distinct0:
  "distinct (map fst ps) \<Longrightarrow> foldl (\<lambda>d kv. dict_set (fst kv) (snd kv) d) [] ps = ps"
  using foldl_dict_set_distinct [of "[]" ps] by simp

lemma dict_of_pairs_native:
  assumes "list_all (\<lambda>kv. case fst kv of KStr k \<Rightarrow> True | _ \<Rightarrow> False) kvs"
    and "distinct (map fst kvs)"
  shows "dict_of_pairs (map (\<lambda>kv. (the (key_str py (fst kv)), snd kv)) kvs) = PDict kvs"
proof -
  have keys: "\<And>kv. kv \<in> set kvs \<Longrightarrow> fst kv = KStr (the (key_str py (fst kv)))"
    using assms(1) by (auto simp: list_all_iff key_str_def split: pykey.splits)
  have inj: "inj_on (\<lambda>k. the (key_str py k)) (set (map fst kvs))"
    using keys by (auto simp: inj_on_def) metis
  have "map fst (map (\<lambda>kv. (the (key_str py (fst kv)), snd kv)) kvs)
          = map (\<lambda>k. the (key_str py k)) (map fst kvs)"
    by simp
  moreover have "distinct (map (\<lambda>k. the (key_str py k)) (map fst kvs))"
    using assms(2) inj by (subst distinct_map) simp
  ultimately have "distinct (map fst (map (\<lambda>kv. (the (key_str py (fst kv)), snd kv)) kvs))"
    by (simp only:)
  then have "foldl (\<lambda>d kv. dict_set (fst kv) (snd kv) d) []
                 (map (\<lambda>kv. (the (key_str py (fst kv)), snd kv)) kvs)
               = map (\<lambda>kv. (the (key_str py (fst kv)), snd kv)) kvs"
    by (rule foldl_dict_set_distinct0)
  moreover have "map (\<lambda>kv. (KStr (fst kv), snd kv))
                   (map (\<lambda>kv. (the (key_str py (fst kv)), snd kv)) kvs) = kvs"
    using keys by (induction kvs) auto
  ultimately show ?thesis by (simp add: dict_of_pairs_def)
qed

lemma foldr_max_ge: "x \<in> set xs \<Longrightarrow> f x \<le> foldr max (map f xs) (0::nat)"
  by (induction xs) (auto simp: max_def)

lemma scan_once_number:
  assumes "s = c # cs" and "is_digit c \<or> c = CHR ''-''" and "match_number py s = Some res"
  shows "scan_once py (Suc m) l s = Some res"
proof -
  from assms(2) have "c \<noteq> CHR 0x22" "c \<noteq> CHR ''{''" "c \<noteq> CHR ''[''" "c \<noteq> CHR ''n''"
    "c \<noteq> CHR ''t''" "c \<noteq> CHR ''f''" by (auto simp: is_digit_def)
  with assms(1,3) show ?thesis by (simp add: startswith_def)
qed

lemma scan_once_iterencode:
  "json_native v \<Longrightarrow> repr_read_back py v \<Longrightarrow> iterencode py lvl v = Some t \<Longrightarrow>
   cost v \<le> n \<Longrightarrow> l + depth v \<le> decoder_depth py \<Longrightarrow> value_end r \<Longrightarrow>
   scan_once py n l (t @ r) = Some (v, r)"
proof (induction v arbitrary: n lvl l t r)
  case PNone
  then obtain m where "n = Suc m" by (cases n) auto
  with PNone show ?case by (auto simp: startswith_def)
next
  case (PBool b)
  then obtain m where "n = Suc m" by (cases n) auto
  with PBool show ?case by (cases b) (auto simp: startswith_def)
next
  case (PInt i)
  then obtain m where n: "n = Suc m" by (cases n) auto
  from PInt.prems have t: "int_repr py i = Some t" by simp
  then have "t = str_int i" by (simp add: int_repr_def split: if_splits)
  then obtain c cs where f: "t @ r = c # (cs @ r)" "is_digit c \<or> c = CHR ''-''"
    using str_int_first [of i] by auto
  from scan_once_number [OF f match_number_int [OF t PInt.prems(6)]] n
  show ?case by simp
next
  case (PFloat f)
  then obtain m where n: "n = Suc m" by (cases n) auto
  show ?case
  proof (cases f)
    case (Float s)
    with PFloat.prems have fr: "is_float_repr s" and rb: "float_of_str py s = Float s"
      and ts: "t = s" by (simp_all add: floatstr_def)
    from fr obtain i r0 where "match_integer s = Some (i, r0)"
      by (auto simp: is_float_repr_def split: option.splits)
    from match_integer_split(2) [OF this]
    obtain c cs where f: "s @ r = c # (cs @ r)" "is_digit c \<or> c = CHR ''-''" by auto
    from scan_once_number [OF f match_number_float [OF fr PFloat.prems(6)]] n ts rb Float
    show ?thesis by simp
  next
    case Inf
    with PFloat.prems have t: "t = ''Infinity''" by (simp add: floatstr_def)
    have "match_number py (''Infinity'' @ r) = None"
      by (simp add: match_number_def match_integer_def startswith_def is_digit_def)
    then show ?thesis unfolding n t Inf by (simp add: startswith_def)
  next
    case NegInf
    with PFloat.prems have t: "t = ''-Infinity''" by (simp add: floatstr_def)
    have "match_number py (''-Infinity'' @ r) = None"
      by (simp add: match_number_def match_integer_def startswith_def is_digit_def)
    then show ?thesis unfolding n t NegInf by (simp add: startswith_def)
  next
    case NaN
    with PFloat.prems show ?thesis by simp
  qed
next
  case (PStr s)
  then obtain m where n: "n = Suc m" by (cases n) auto
  from PStr.prems have t: "t = encode_basestring s" by simp
  obtain u where "encode_basestring s @ r = CHR 0x22 # u" "scanstring [] u = Some (s, r)"
    using scanstring_encoded by blast
  with n t show ?case by simp
next
  case (PList xs)
  then obtain m where n: "n = Suc m" and m: "sum_list (map (\<lambda>x. 1 + cost x) xs) \<le> m"
    by (cases n) auto
  from PList.prems(5) have lev: "\<not> decoder_depth py \<le> l" by simp
  from PList.prems(3) have br: "bracket py lvl (CHR ''['') (CHR '']'')
      (map (iterencode py (lvl + 1)) xs) = Some t" by simp
  show ?case
  proof (cases "xs = []")
    case True
    with br have "t = ''[]''" by (simp add: bracket_def)
    with True n lev show ?thesis by (simp add: skip_ws_def is_ws_def)
  next
    case False
    with bracket_text [OF br] obtain ts where
      ts: "list_all2 (\<lambda>x t. iterencode py (lvl + 1) x = Some t) xs ts"
      and t: "t = CHR ''['' # newline_indent (lvl + 1)
                    @ join ('','' @ newline_indent (lvl + 1)) ts @ newline_indent lvl @ '']''"
      by (auto simp: those_map)
    let ?body = "join ('','' @ newline_indent (lvl + 1)) ts @ newline_indent lvl @ CHR '']'' # r"
    have sub: "\<And>x. x \<in> set xs \<Longrightarrow> json_native x \<and> repr_read_back py x
                 \<and> Suc l + depth x \<le> decoder_depth py"
      using PList.prems(1,2,5) foldr_max_ge [of _ xs depth]
      by (fastforce simp: list_all_iff)
    have IH: "\<And>x n t r. x \<in> set xs \<Longrightarrow> iterencode py (lvl + 1) x = Some t \<Longrightarrow> cost x \<le> n \<Longrightarrow>
                 value_end r \<Longrightarrow> scan_once py n (Suc l) (t @ r) = Some (x, r)"
      using PList.IH sub by blast
    have VS: "\<And>x t r. x \<in> set xs \<Longrightarrow> iterencode py (lvl + 1) x = Some t \<Longrightarrow> value_start (t @ r)"
      using value_start_iterencode sub by blast
    have arr: "scan_array py m (Suc l) ?body [] = Some (PList ([] @ xs), r)"
      using IH VS False ts m by (rule scan_array_elements)
    obtain x xs' where xs: "xs = x # xs'" using False by (cases xs) auto
    with ts obtain u us where us: "ts = u # us" "iterencode py (lvl + 1) x = Some u"
      by (auto simp: list_all2_Cons1)
    have vs: "value_start ?body"
      using VS [of x u] us xs
      by (cases us) (simp_all add: value_start_def split: list.splits)
    then obtain c1 b where body: "?body = c1 # b" "c1 \<noteq> CHR '']''"
      by (auto simp: value_start_def split: list.splits)
    have sk: "skip_ws (newline_indent (lvl + 1) @ ?body) = ?body"
      using vs by (rule skip_ws_newline_indent)
    have "t @ r = CHR ''['' # newline_indent (lvl + 1) @ ?body"
      using t by simp
    then have "scan_once py (Suc m) l (t @ r) = scan_array py m (Suc l) ?body []"
      using sk body lev by simp
    with arr n show ?thesis by simp
  qed
next
  case (PTuple xs)
  then show ?case by simp
next
  case (PDict kvs)
  then obtain m where n: "n = Suc m" and m: "sum_list (map (\<lambda>kv. 1 + cost (snd kv)) kvs) \<le> m"
    by (cases n) auto
  from PDict.prems(5) have lev: "\<not> decoder_depth py \<le> l" by simp
  from PDict.prems(3) have br: "bracket py lvl (CHR ''{'') (CHR ''}'')
      (map (\<lambda>kv. member (key_str py (fst kv)) (iterencode py (lvl + 1) (snd kv))) kvs) = Some t"
    by simp
  show ?case
  proof (cases "kvs = []")
    case True
    with br have "t = ''{}''" by (simp add: bracket_def)
    with True n lev show ?thesis by (simp add: skip_ws_def is_ws_def)
  next
    case False
    with bracket_text [OF br] obtain ts where
      ts: "list_all2 (\<lambda>kv t. member (key_str py (fst kv)) (iterencode py (lvl + 1) (snd kv)) = Some t)
             kvs ts"
      and t: "t = CHR ''{'' # newline_indent (lvl + 1)
                    @ join ('','' @ newline_indent (lvl + 1)) ts @ newline_indent lvl @ ''}''"
      by (auto simp: those_map)
    let ?body = "join ('','' @ newline_indent (lvl + 1)) ts @ newline_indent lvl @ CHR ''}'' # r"
    have sub: "\<And>kv. kv \<in> set kvs \<Longrightarrow> json_native (snd kv) \<and> repr_read_back py (snd kv)
                 \<and> Suc l + depth (snd kv) \<le> decoder_depth py"
      using PDict.prems(1,2,5) foldr_max_ge [of _ kvs "\<lambda>kv. depth (snd kv)"]
      by (fastforce simp: list_all_iff)
    have IH: "\<And>kv n t r. kv \<in> set kvs \<Longrightarrow> iterencode py (lvl + 1) (snd kv) = Some t \<Longrightarrow>
                 cost (snd kv) \<le> n \<Longrightarrow> value_end r \<Longrightarrow>
                 scan_once py n (Suc l) (t @ r) = Some (snd kv, r)"
    proof -
      fix kv n t r
      assume kv: "kv \<in> set kvs" and e: "iterencode py (lvl + 1) (snd kv) = Some t"
        and c: "cost (snd kv) \<le> n" and v: "value_end r"
      have "snd kv \<in> Basic_BNFs.snds kv" by (cases kv) simp
      with PDict.IH [OF kv this _ _ e c _ v] sub [OF kv]
      show "scan_once py n (Suc l) (t @ r) = Some (snd kv, r)" by simp
    qed
    have VS: "\<And>kv t r. kv \<in> set kvs \<Longrightarrow> iterencode py (lvl + 1) (snd kv) = Some t \<Longrightarrow>
                 value_start (t @ r)"
      using value_start_iterencode sub by blast
    have obj: "scan_object py m (Suc l) ?body []
                = Some (dict_of_pairs ([] @ map (\<lambda>kv. (the (key_str py (fst kv)), snd kv)) kvs), r)"
      using IH VS False ts m by (rule scan_object_members)
    have native: "dict_of_pairs (map (\<lambda>kv. (the (key_str py (fst kv)), snd kv)) kvs) = PDict kvs"
      using PDict.prems(1) by (intro dict_of_pairs_native) (auto simp: list_all_iff)
    obtain kv kvs' where kvs: "kvs = kv # kvs'" using False by (cases kvs) auto
    with ts obtain u us where us: "ts = u # us"
      "member (key_str py (fst kv)) (iterencode py (lvl + 1) (snd kv)) = Some u"
      by (auto simp: list_all2_Cons1)
    from member_text [OF us(2)] obtain key vt where "u = encode_basestring key @ '': '' @ vt"
      by blast
    then have vs: "value_start ?body"
      using us(1) value_start_member [of key]
      by (cases us) (simp_all add: value_start_def split: list.splits)
    then obtain c1 b where body: "?body = c1 # b" "c1 \<noteq> CHR ''}''"
      by (auto simp: value_start_def split: list.splits)
    have sk: "skip_ws (newline_indent (lvl + 1) @ ?body) = ?body"
      using vs by (rule skip_ws_newline_indent)
    have "t @ r = CHR ''{'' # newline_indent (lvl + 1) @ ?body"
      using t by simp
    then have "scan_once py (Suc m) l (t @ r) = scan_object py m (Suc l) ?body []"
      using sk body lev by simp
    with obj native n show ?thesis by simp
  qed
next
  case POther
  then show ?case by simp
qed


subsection \<open>The counter is large enough\<close>

lemma join_length_ge:
  "sep \<noteq> [] \<Longrightarrow> sum_list (map length ys) + (length ys - 1) \<le> length (join sep ys)"
proof (induction sep ys rule: join.induct)
  case (3 sep x y ys)
  then have "1 \<le> length sep" by (cases sep) simp_all
  moreover from 3 have "sum_list (map length (y # ys)) + (length (y # ys) - 1)
                          \<le> length (join sep (y # ys))" by simp
  ultimately show ?case by simp
qed simp_all

lemma sum_list_Suc_cost:
  "sum_list (map (\<lambda>x. Suc (c x)) xs) = length xs + sum_list (map c xs)"
  by (induction xs) auto

lemma sum_list_all2_le:
  fixes c :: "'a \<Rightarrow> nat"
  shows "list_all2 (\<lambda>x t. c x \<le> length t) xs ts \<Longrightarrow>
         sum_list (map c xs) \<le> sum_list (map length ts)"
  by (induction xs ts rule: list_all2_induct) auto

lemma container_length:
  assumes "xs \<noteq> []" and "list_all2 (\<lambda>x t. c x \<le> length t) xs ts"
  shows "1 + sum_list (map (\<lambda>x. 1 + c x) xs)
           \<le> length (a # newline_indent k @ join (CHR '','' # newline_indent k) ts
                       @ newline_indent l @ [b])"
proof -
  have len: "length ts = length xs" using assms(2) by (simp add: list_all2_lengthD)
  have "sum_list (map c xs) \<le> sum_list (map length ts)"
    using assms(2) by (rule sum_list_all2_le)
  moreover have "sum_list (map length ts) + (length ts - 1)
                   \<le> length (join (CHR '','' # newline_indent k) ts)"
    by (rule join_length_ge) simp
  moreover have "0 < length xs" using assms(1) by simp
  moreover have "sum_list (map (\<lambda>x. 1 + c x) xs) = length xs + sum_list (map c xs)"
    using sum_list_Suc_cost [of c xs] by simp
  moreover have "length (a # newline_indent k @ join (CHR '','' # newline_indent k) ts
                       @ newline_indent l @ [b])
                 = 4 + 4 * k + 4 * l + length (join (CHR '','' # newline_indent k) ts)"
    by (simp add: newline_indent_def)
  ultimately show ?thesis using len by linarith
qed

lemma cost_le_length:
  "iterencode py lvl v = Some t \<Longrightarrow> repr_read_back py v \<Longrightarrow> cost v \<le> length t"
proof (induction v arbitrary: lvl t)
  case (PInt i)
  then have "t = str_int i" by (simp add: int_repr_def split: if_splits)
  moreover obtain c cs where "str_int i = c # cs" using str_int_first by blast
  ultimately show ?case by simp
next
  case (PFloat f)
  show ?case
  proof (cases f)
    case (Float s)
    with PFloat have fr: "is_float_repr s" and t: "t = s" by (simp_all add: floatstr_def)
    from fr obtain i r0 where "match_integer s = Some (i, r0)"
      by (auto simp: is_float_repr_def split: option.splits)
    from match_integer_split(2) [OF this] t show ?thesis by auto
  qed (use PFloat in \<open>auto simp: floatstr_def\<close>)
next
  case (PList xs)
  from PList.prems(1) have br: "bracket py lvl (CHR ''['') (CHR '']'')
      (map (iterencode py (lvl + 1)) xs) = Some t" by simp
  show ?case
  proof (cases "xs = []")
    case False
    with bracket_text [OF br] obtain ts where
      ts: "list_all2 (\<lambda>x t. iterencode py (lvl + 1) x = Some t) xs ts"
      and t: "t = CHR ''['' # newline_indent (lvl + 1)
                    @ join ('','' @ newline_indent (lvl + 1)) ts @ newline_indent lvl @ '']''"
      by (auto simp: those_map)
    have "list_all2 (\<lambda>x t. cost x \<le> length t) xs ts"
      using ts PList.IH PList.prems(2)
      by (auto simp: list_all2_conv_all_nth list_all_iff)
    with False have "1 + sum_list (map (\<lambda>x. 1 + cost x) xs)
           \<le> length (CHR ''['' # newline_indent (lvl + 1)
                       @ join (CHR '','' # newline_indent (lvl + 1)) ts
                       @ newline_indent lvl @ [CHR '']''])"
      by (intro container_length)
    with t show ?thesis by simp
  qed (use br in \<open>auto simp: bracket_def\<close>)
next
  case (PTuple xs)
  from PTuple.prems(1) have br: "bracket py lvl (CHR ''['') (CHR '']'')
      (map (iterencode py (lvl + 1)) xs) = Some t" by simp
  show ?case
  proof (cases "xs = []")
    case False
    with bracket_text [OF br] obtain ts where
      ts: "list_all2 (\<lambda>x t. iterencode py (lvl + 1) x = Some t) xs ts"
      and t: "t = CHR ''['' # newline_indent (lvl + 1)
                    @ join ('','' @ newline_indent (lvl + 1)) ts @ newline_indent lvl @ '']''"
      by (auto simp: those_map)
    have "list_all2 (\<lambda>x t. cost x \<le> length t) xs ts"
      using ts PTuple.IH PTuple.prems(2)
      by (auto simp: list_all2_conv_all_nth list_all_iff)
    with False have "1 + sum_list (map (\<lambda>x. 1 + cost x) xs)
           \<le> length (CHR ''['' # newline_indent (lvl + 1)
                       @ join (CHR '','' # newline_indent (lvl + 1)) ts
                       @ newline_indent lvl @ [CHR '']''])"
      by (intro container_length)
    with t show ?thesis by simp
  qed (use br in \<open>auto simp: bracket_def\<close>)
next
  case (PDict kvs)
  from PDict.prems(1) have br: "bracket py lvl (CHR ''{'') (CHR ''}'')
      (map (\<lambda>kv. member (key_str py (fst kv)) (iterencode py (lvl + 1) (snd kv))) kvs) = Some t"
    by simp
  show ?case
  proof (cases "kvs = []")
    case False
    with bracket_text [OF br] obtain ts where
      ts: "list_all2 (\<lambda>kv t. member (key_str py (fst kv)) (iterencode py (lvl + 1) (snd kv)) = Some t)
             kvs ts"
      and t: "t = CHR ''{'' # newline_indent (lvl + 1)
                    @ join ('','' @ newline_indent (lvl + 1)) ts @ newline_indent lvl @ ''}''"
      by (auto simp: those_map)
    have one: "cost (snd kv) \<le> length u"
      if "kv \<in> set kvs" "member (key_str py (fst kv)) (iterencode py (lvl + 1) (snd kv)) = Some u"
      for kv u
    proof -
      from member_text [OF that(2)] obtain key vt where
        vt: "iterencode py (lvl + 1) (snd kv) = Some vt" and u: "u = encode_basestring key @ '': '' @ vt"
        by blast
      have "snd kv \<in> Basic_BNFs.snds kv" by (cases kv) simp
      moreover have "repr_read_back py (snd kv)"
        using PDict.prems(2) that(1) by (auto simp: list_all_iff)
      ultimately have "cost (snd kv) \<le> length vt"
        using PDict.IH [OF that(1) _ vt] by blast
      with u show ?thesis by simp
    qed
    have "list_all2 (\<lambda>kv t. cost (snd kv) \<le> length t) kvs ts"
      using ts one by (auto simp: list_all2_conv_all_nth)
    with False have "1 + sum_list (map (\<lambda>kv. 1 + cost (snd kv)) kvs)
           \<le> length (CHR ''{'' # newline_indent (lvl + 1)
                       @ join (CHR '','' # newline_indent (lvl + 1)) ts
                       @ newline_indent lvl @ [CHR ''}''])"
      by (intro container_length)
    with t show ?thesis by simp
  qed (use br in \<open>auto simp: bracket_def\<close>)
qed (auto simp: encode_basestring_def)

lemma loads_dumps:
  assumes "json_native d" and "repr_read_back py d" and "depth d \<le> decoder_depth py"
    and "dumps py d = Some t"
  shows "loads py t = Some d"
proof -
  from assms(4) have enc: "iterencode py 0 d = Some t" by (simp add: dumps_def)
  have "value_start (t @ [])" using enc assms(2) by (rule value_start_iterencode)
  then have sk: "skip_ws t = t"
    by (cases t) (simp_all add: value_start_def skip_ws_def)
  have "cost d \<le> Suc (length t)"
    using cost_le_length [OF enc assms(2)] by simp
  with assms(1,2,3) enc have "scan_once py (Suc (length t)) 0 (t @ []) = Some (d, [])"
    by (intro scan_once_iterencode) (simp_all add: value_end_def)
  with sk show ?thesis by (simp add: loads_def skip_ws_def)
qed

subsection \<open>What \<open>export_json\<close> returns\<close>

lemma export_json_bytes:
  assumes "export_json py d = Some bs"
  shows "dumps py d = Some bs" and "\<not> has_surrogate bs"
    and "(\<exists>xs. d = PList xs) \<or> (\<exists>kvs. d = PDict kvs)"
  using assms
  by (auto simp: export_json_def encode_utf8_def split: pyval.splits option.splits if_splits)

lemma export_json_raises:
  shows "0 < int_max_str_digits py \<Longrightarrow> int_max_str_digits py < length (str_nat (nat \<bar>i\<bar>)) \<Longrightarrow>
           export_json py (PList [PInt i]) = None"
    and "encoder_depth py \<le> 1 \<Longrightarrow> export_json py (PList [PList [PNone]]) = None"
    and "export_json py (PList [POther]) = None"
    and "export_json py (PDict [(KOther, PNone)]) = None"
    and "export_json py (PTuple xs) = None"
    and "export_json py (PStr s) = None"
  by (auto simp: export_json_def dumps_def bracket_def int_repr_def member_def key_str_def
        split: option.splits)

lemma export_json_surrogate:
  "export_json py (PList [PStr [CHR 0xED, CHR 0xA0, CHR 0x80]]) = None"
proof (cases "encoder_depth py = 0")
  case True
  then show ?thesis by (simp add: export_json_def dumps_def bracket_def)
next
  case False
  have "has_surrogate (''['' @ newline_indent 1 @ [CHR 0x22, CHR 0xED, CHR 0xA0, CHR 0x80, CHR 0x22]
          @ newline_indent 0 @ '']'')"
    by (simp add: newline_indent_def eval_nat_numeral)
  with False show ?thesis
    by (simp add: export_json_def dumps_def bracket_def encode_utf8_def encode_basestring_def
          escape_char_def)
qed

text \<open>
  C7, as the code has it. Let \<open>d\<close> be built from \<open>None\<close>, booleans, integers,
  floating point numbers other than NaN, strings, lists and dictionaries with string
  keys, where \<open>float(repr(x)) == x\<close> for every finite floating point number \<open>x\<close> in it.
  Whenever \<open>export_json\<close> returns bytes for \<open>d\<close>, which it does not when the encoder or
  the UTF-8 encoding raises, parsing these bytes as JSON gives back \<open>d\<close>, provided that
  the decoder has the levels of nesting of \<open>d\<close> left on its stack.
\<close>

theorem export_json_round_trip:
  assumes "json_native d" and "repr_read_back py d" and "depth d \<le> decoder_depth py"
    and "export_json py d = Some bs"
  shows "loads py bs = Some d"
  using assms(1,2,3) export_json_bytes(1) [OF assms(4)] by (rule loads_dumps)

theorem export_json_round_trip_witness:
  "export_json
      \<lparr>int_max_str_digits = 4300, encoder_depth = 990, decoder_depth = 990, float_of_str = Float\<rparr>
      (PDict [(KStr ''Title'', PStr ''A paper''),
              (KStr ''pages'', PList [PInt 1, PInt (- 2), PNone, PFloat (Float ''1.5''), PFloat Inf,
                                       PStr [CHR 0xC3, CHR 0xA9, CHR 0x0A]]),
              (KStr ''empty'', PDict [])])
     = Some (''{'' @ [CHR 0x0A] @ ''    '' @ [CHR 0x22] @ ''Title'' @ [CHR 0x22] @ '': ''
              @ [CHR 0x22] @ ''A paper'' @ [CHR 0x22] @ '','' @ [CHR 0x0A]
              @ ''    '' @ [CHR 0x22] @ ''pages'' @ [CHR 0x22] @ '': ['' @ [CHR 0x0A]
              @ ''        1,'' @ [CHR 0x0A] @ ''        -2,'' @ [CHR 0x0A]
              @ ''        null,'' @ [CHR 0x0A] @ ''        1.5,'' @ [CHR 0x0A]
              @ ''        Infinity,'' @ [CHR 0x0A]
              @ ''        '' @ [CHR 0x22, CHR 0xC3, CHR 0xA9, CHR 0x5C] @ ''n'' @ [CHR 0x22, CHR 0x0A]
              @ ''    ],'' @ [CHR 0x0A]
              @ ''    '' @ [CHR 0x22] @ ''empty'' @ [CHR 0x22] @ '': {}'' @ [CHR 0x0A] @ ''}'')
   \<and> loads
      \<lparr>int_max_str_digits = 4300, encoder_depth = 990, decoder_depth = 990, float_of_str = Float\<rparr>
      (''{'' @ [CHR 0x0A] @ ''    '' @ [CHR 0x22] @ ''Title'' @ [CHR 0x22] @ '': ''
              @ [CHR 0x22] @ ''A paper'' @ [CHR 0x22] @ '','' @ [CHR 0x0A]
              @ ''    '' @ [CHR 0x22] @ ''pages'' @ [CHR 0x22] @ '': ['' @ [CHR 0x0A]
              @ ''        1,'' @ [CHR 0x0A] @ ''        -2,'' @ [CHR 0x0A]
              @ ''        null,'' @ [CHR 0x0A] @ ''        1.5,'' @ [CHR 0x0A]
              @ ''        Infinity,'' @ [CHR 0x0A]
              @ ''        '' @ [CHR 0x22, CHR 0xC3, CHR 0xA9, CHR 0x5C] @ ''n'' @ [CHR 0x22, CHR 0x0A]
              @ ''    ],'' @ [CHR 0x0A]
              @ ''    '' @ [CHR 0x22] @ ''empty'' @ [CHR 0x22] @ '': {}'' @ [CHR 0x0A] @ ''}'')
     = Some (PDict [(KStr ''Title'', PStr ''A paper''),
              (KStr ''pages'', PList [PInt 1, PInt (- 2), PNone, PFloat (Float ''1.5''), PFloat Inf,
                                       PStr [CHR 0xC3, CHR 0xA9, CHR 0x0A]]),
              (KStr ''empty'', PDict [])])"
proof -
  let ?py = "\<lparr>int_max_str_digits = 4300, encoder_depth = 990, decoder_depth = 990,
               float_of_str = Float\<rparr>"
  let ?d = "PDict [(KStr ''Title'', PStr ''A paper''),
              (KStr ''pages'', PList [PInt 1, PInt (- 2), PNone, PFloat (Float ''1.5''), PFloat Inf,
                                       PStr [CHR 0xC3, CHR 0xA9, CHR 0x0A]]),
              (KStr ''empty'', PDict [])]"
  let ?bs = "''{'' @ [CHR 0x0A] @ ''    '' @ [CHR 0x22] @ ''Title'' @ [CHR 0x22] @ '': ''
              @ [CHR 0x22] @ ''A paper'' @ [CHR 0x22] @ '','' @ [CHR 0x0A]
              @ ''    '' @ [CHR 0x22] @ ''pages'' @ [CHR 0x22] @ '': ['' @ [CHR 0x0A]
              @ ''        1,'' @ [CHR 0x0A] @ ''        -2,'' @ [CHR 0x0A]
              @ ''        null,'' @ [CHR 0x0A] @ ''        1.5,'' @ [CHR 0x0A]
              @ ''        Infinity,'' @ [CHR 0x0A]
              @ ''        '' @ [CHR 0x22, CHR 0xC3, CHR 0xA9, CHR 0x5C] @ ''n'' @ [CHR 0x22, CHR 0x0A]
              @ ''    ],'' @ [CHR 0x0A]
              @ ''    '' @ [CHR 0x22] @ ''empty'' @ [CHR 0x22] @ '': {}'' @ [CHR 0x0A] @ ''}''"
  have native: "json_native ?d" by simp
  have floats: "repr_read_back ?py ?d" by code_simp
  have room: "depth ?d \<le> decoder_depth ?py" by simp
  have bytes: "export_json ?py ?d = Some ?bs" by code_simp
  from export_json_round_trip [OF native floats room bytes] bytes show ?thesis by simp
qed

text \<open>
  C7 as the specification states it, for any input that \<open>json.dumps\<close> can write, does
  not hold: an integer key comes back as a string key, and a tuple comes back as a
  list.
\<close>

theorem export_json_int_key_not_restored:
  "loads \<lparr>int_max_str_digits = 4300, encoder_depth = 990, decoder_depth = 990, float_of_str = Float\<rparr>
     (the (export_json
        \<lparr>int_max_str_digits = 4300, encoder_depth = 990, decoder_depth = 990, float_of_str = Float\<rparr>
        (PDict [(KInt 1, PStr ''a'')])))
     = Some (PDict [(KStr ''1'', PStr ''a'')])
   \<and> PDict [(KStr ''1'', PStr ''a'')] \<noteq> PDict [(KInt 1, PStr ''a'')]
   \<and> loads \<lparr>int_max_str_digits = 4300, encoder_depth = 990, decoder_depth = 990, float_of_str = Float\<rparr>
     (the (export_json
        \<lparr>int_max_str_digits = 4300, encoder_depth = 990, decoder_depth = 990, float_of_str = Float\<rparr>
        (PList [PTuple [PInt 1, PInt 2]])))
     = Some (PList [PList [PInt 1, PInt 2]])
   \<and> PList [PList [PInt 1, PInt 2]] \<noteq> PList [PTuple [PInt 1, PInt 2]]"
  by code_simp

end
